theory Spec2Isabelle
  imports Complex_Main
begin

section \<open>Python floats and exceptions\<close>

text \<open>
  A Python float is an IEEE binary64 value: a finite number, an infinity or NaN.  A finite
  value is given by the real number it denotes (\<open>-0.0\<close> and \<open>0.0\<close> are not told
  apart; they compare equal and are both false).  The comparisons are exact and are
  defined here.  The arithmetic operations round, and their last bit depends on the
  platform's C library, so they are parameters: every statement below holds for whatever
  the operations return.  \<open>x ** 2\<close> raises \<open>OverflowError\<close> when the result is out of
  range and \<open>math.sqrt\<close> raises \<open>ValueError\<close> on a negative argument, so these two
  return a sum.
\<close>

datatype pyfloat = Fin real | PInf | NInf | NaN

text \<open>The exceptions that occur: of float arithmetic, and of the \<open>sqlite3\<close> module
  (\<open>OverflowError\<close> when binding an integer outside 64 bits, \<open>IntegrityError\<close> for a
  violated constraint).\<close>

datatype py_error = OverflowError | ValueError | IntegrityError

text \<open>\<open>a < b\<close>: false whenever an operand is NaN.\<close>

fun flt :: "pyfloat \<Rightarrow> pyfloat \<Rightarrow> bool" where
  "flt NaN b = False"
| "flt a NaN = False"
| "flt PInf b = False"
| "flt a NInf = False"
| "flt NInf b = True"
| "flt a PInf = True"
| "flt (Fin x) (Fin y) = (x < y)"

text \<open>\<open>a <= b\<close>: false whenever an operand is NaN.\<close>

fun fle :: "pyfloat \<Rightarrow> pyfloat \<Rightarrow> bool" where
  "fle NaN b = False"
| "fle a NaN = False"
| "fle NInf b = True"
| "fle a PInf = True"
| "fle PInf b = False"
| "fle a NInf = False"
| "fle (Fin x) (Fin y) = (x \<le> y)"

record float_ops =
  fsub :: "pyfloat \<Rightarrow> pyfloat \<Rightarrow> pyfloat"
  fadd :: "pyfloat \<Rightarrow> pyfloat \<Rightarrow> pyfloat"
  fmul :: "pyfloat \<Rightarrow> pyfloat \<Rightarrow> pyfloat"
  fsquare :: "pyfloat \<Rightarrow> py_error + pyfloat"
  fsqrt :: "pyfloat \<Rightarrow> py_error + pyfloat"

section \<open>Position verifier (scripts/verify\_marker\_positions.py)\<close>

text \<open>The \<open>verified_at\<close> time stamp of a result is not modelled.\<close>

record MarkerPosition =
  mp_uid :: string
  mp_name :: string
  mp_x :: pyfloat
  mp_y :: pyfloat
  mp_category :: string
  mp_sub_category :: string
  mp_map_name :: string
  mp_level :: "int option"

record VerificationResult =
  marker_uid :: string
  marker_name :: string
  map_name :: string
  api_x :: pyfloat
  api_y :: pyfloat
  web_x :: "pyfloat option"
  web_y :: "pyfloat option"
  distance :: "pyfloat option"
  is_match :: bool
  error :: "string option"
  screenshot_path :: "string option"

record MarkerVerifier =
  api_markers :: "string \<Rightarrow> MarkerPosition list option"
  web_markers :: "string \<Rightarrow> MarkerPosition list option"
  results :: "VerificationResult list"

text \<open>The constructor call \<open>VerificationResult(marker_uid=..., ..., api_y=...)\<close>
  with every other field at its dataclass default.\<close>

definition new_result :: "MarkerPosition \<Rightarrow> string \<Rightarrow> VerificationResult" where
  "new_result api_marker mname =
     \<lparr>marker_uid = mp_uid api_marker, marker_name = mp_name api_marker,
      map_name = mname, api_x = mp_x api_marker, api_y = mp_y api_marker,
      web_x = None, web_y = None, distance = None, is_match = False,
      error = None, screenshot_path = None\<rparr>"

text \<open>\<open>sqrt((a.x - w.x) ** 2 + (a.y - w.y) ** 2)\<close>, evaluated left to right; an
  exception of a power or of the root is the result.\<close>

definition euclid :: "float_ops \<Rightarrow> MarkerPosition \<Rightarrow> MarkerPosition \<Rightarrow> py_error + pyfloat" where
  "euclid fp a w =
     (case fsquare fp (fsub fp (mp_x a) (mp_x w)) of
        Inl e \<Rightarrow> Inl e
      | Inr sx \<Rightarrow>
          (case fsquare fp (fsub fp (mp_y a) (mp_y w)) of
             Inl e \<Rightarrow> Inl e
           | Inr sy \<Rightarrow> fsqrt fp (fadd fp sx sy)))"

text \<open>\<open>{m.uid: m for m in web_markers if m.uid}\<close>: a later entry with the same
  uid overwrites an earlier one; entries with an empty uid are left out.\<close>

fun web_lookup_from ::
  "(string \<Rightarrow> MarkerPosition option) \<Rightarrow> MarkerPosition list \<Rightarrow> string \<Rightarrow> MarkerPosition option" where
  "web_lookup_from d [] = d"
| "web_lookup_from d (m # ms) =
     web_lookup_from (if mp_uid m \<noteq> [] then d(mp_uid m \<mapsto> m) else d) ms"

definition web_lookup :: "MarkerPosition list \<Rightarrow> string \<Rightarrow> MarkerPosition option" where
  "web_lookup ws = web_lookup_from Map.empty ws"

text \<open>The nearest-neighbour loop on its two variables \<open>(min_distance, nearest_web)\<close>,
  which start as \<open>(float('inf'), None)\<close>.  A distance that is infinite or NaN is not
  below \<open>inf\<close> and replaces nothing.\<close>

fun nearest_loop ::
  "float_ops \<Rightarrow> MarkerPosition \<Rightarrow> MarkerPosition list \<Rightarrow> pyfloat \<times> MarkerPosition option
     \<Rightarrow> py_error + pyfloat \<times> MarkerPosition option" where
  "nearest_loop fp a [] st = Inr st"
| "nearest_loop fp a (w # ws) st =
     (case euclid fp a w of
        Inl e \<Rightarrow> Inl e
      | Inr d \<Rightarrow>
          nearest_loop fp a ws (if flt d (fst st) then (d, Some w) else st))"

definition no_web_error :: string where
  "no_web_error = ''No web markers available for comparison''"

definition no_match_error :: string where
  "no_match_error = ''No matching web marker found''"

text \<open>The body of the main loop of \<open>compare_positions\<close> for one API marker.\<close>

definition compare_marker ::
  "float_ops \<Rightarrow> string \<Rightarrow> pyfloat \<Rightarrow> MarkerPosition list \<Rightarrow> MarkerPosition
     \<Rightarrow> py_error + VerificationResult" where
  "compare_marker fp mname tolerance webs api_marker =
     (let result = new_result api_marker mname in
      case web_lookup webs (mp_uid api_marker) of
        Some web_marker \<Rightarrow>
          (case euclid fp api_marker web_marker of
             Inl e \<Rightarrow> Inl e
           | Inr d \<Rightarrow>
               Inr (result\<lparr>web_x := Some (mp_x web_marker), web_y := Some (mp_y web_marker),
                      distance := Some d, is_match := fle d tolerance\<rparr>))
      | None \<Rightarrow>
          (case nearest_loop fp api_marker webs (PInf, None) of
             Inl e \<Rightarrow> Inl e
           | Inr (min_distance, nearest) \<Rightarrow>
               (case nearest of
                  Some nearest_web \<Rightarrow>
                    if fle min_distance (fmul fp tolerance (Fin 2))
                    then Inr (result\<lparr>web_x := Some (mp_x nearest_web),
                                web_y := Some (mp_y nearest_web),
                                distance := Some min_distance,
                                is_match := fle min_distance tolerance\<rparr>)
                    else Inr (result\<lparr>error := Some no_match_error\<rparr>)
                | None \<Rightarrow> Inr (result\<lparr>error := Some no_match_error\<rparr>))))"

text \<open>Python truthiness of an optional string: \<open>None\<close> and \<open>""\<close> are false.\<close>

definition truthy_str :: "string option \<Rightarrow> bool" where
  "truthy_str s = (case s of None \<Rightarrow> False | Some t \<Rightarrow> t \<noteq> [])"

text \<open>Python truthiness of an optional float: \<open>None\<close> and zero are false; NaN and the
  infinities are true.\<close>

definition truthy_num :: "pyfloat option \<Rightarrow> bool" where
  "truthy_num d = (case d of None \<Rightarrow> False | Some r \<Rightarrow> r \<noteq> Fin 0)"

text \<open>The primary entries \<open>compare_positions\<close> considers: \<open>self.api_markers.get(map_name, [])\<close>
  restricted to the category when \<open>category_filter\<close> is given and non-empty.\<close>

definition considered ::
  "MarkerVerifier \<Rightarrow> string \<Rightarrow> string option \<Rightarrow> MarkerPosition list" where
  "considered self mname category_filter =
     (let api = (case api_markers self mname of None \<Rightarrow> [] | Some ms \<Rightarrow> ms) in
      if truthy_str category_filter
      then filter (\<lambda>m. Some (mp_category m) = category_filter) api
      else api)"

text \<open>The main loop: the results in order; the first exception ends it.\<close>

fun compare_loop ::
  "float_ops \<Rightarrow> string \<Rightarrow> pyfloat \<Rightarrow> MarkerPosition list \<Rightarrow> MarkerPosition list
     \<Rightarrow> py_error + VerificationResult list" where
  "compare_loop fp mname tolerance webs [] = Inr []"
| "compare_loop fp mname tolerance webs (api_marker # rest) =
     (case compare_marker fp mname tolerance webs api_marker of
        Inl e \<Rightarrow> Inl e
      | Inr result \<Rightarrow>
          (case compare_loop fp mname tolerance webs rest of
             Inl e \<Rightarrow> Inl e
           | Inr rs \<Rightarrow> Inr (result # rs)))"

text \<open>\<open>compare_positions\<close> returns its result list and extends \<open>self.results\<close> by it;
  an exception leaves \<open>self.results\<close> as it was.\<close>

definition compare_positions ::
  "float_ops \<Rightarrow> MarkerVerifier \<Rightarrow> string \<Rightarrow> pyfloat \<Rightarrow> string option
     \<Rightarrow> py_error + VerificationResult list \<times> MarkerVerifier" where
  "compare_positions fp self mname tolerance category_filter =
     (let apis = considered self mname category_filter;
          webs = (case web_markers self mname of None \<Rightarrow> [] | Some ms \<Rightarrow> ms)
      in if webs = []
         then (let rs = map (\<lambda>a. (new_result a mname)\<lparr>error := Some no_web_error\<rparr>) apis
               in Inr (rs, self\<lparr>results := results self @ rs\<rparr>))
         else (case compare_loop fp mname tolerance webs apis of
                 Inl e \<Rightarrow> Inl e
               | Inr rs \<Rightarrow> Inr (rs, self\<lparr>results := results self @ rs\<rparr>)))"

text \<open>The statistics \<open>compare_positions\<close> derives from its result list (lines 377-380).\<close>

definition stat_matched :: "VerificationResult list \<Rightarrow> nat" where
  "stat_matched rs = length (filter is_match rs)"

definition stat_unmatched :: "VerificationResult list \<Rightarrow> nat" where
  "stat_unmatched rs = length (filter (\<lambda>r. \<not> is_match r \<and> web_x r \<noteq> None) rs)"

definition stat_missing :: "VerificationResult list \<Rightarrow> nat" where
  "stat_missing rs = length (filter (\<lambda>r. truthy_str (error r)) rs)"

subsection \<open>Report aggregation\<close>

record map_stats =
  ms_total :: nat
  ms_matched :: nat
  ms_discrepancies :: nat
  ms_missing :: nat

record discrepancy_detail =
  d_uid :: string
  d_name :: string
  d_map :: string
  d_api :: "pyfloat \<times> pyfloat"
  d_web :: "pyfloat option \<times> pyfloat option"
  d_distance :: "pyfloat option"

text \<open>The data of a report: the dictionary written by \<open>_generate_json_report\<close>, and the
  keyword arguments handed to the template by \<open>_generate_html_report\<close>.  \<open>by_map\<close> is a
  dictionary in insertion order.  The \<open>generated_at\<close> time stamp is not modelled.\<close>

record report =
  total_markers :: nat
  matched :: nat
  discrepancies :: nat
  missing :: nat
  by_map :: "(string \<times> map_stats) list"
  discrepancy_details :: "discrepancy_detail list"

definition detail_of :: "VerificationResult \<Rightarrow> discrepancy_detail" where
  "detail_of r =
     \<lparr>d_uid = marker_uid r, d_name = marker_name r, d_map = map_name r,
      d_api = (api_x r, api_y r), d_web = (web_x r, web_y r), d_distance = distance r\<rparr>"

definition zero_stats :: map_stats where
  "zero_stats = \<lparr>ms_total = 0, ms_matched = 0, ms_discrepancies = 0, ms_missing = 0\<rparr>"

text \<open>\<open>by_map[k] = f(by_map[k])\<close> for a key that is present.\<close>

definition upd_stats ::
  "string \<Rightarrow> (map_stats \<Rightarrow> map_stats) \<Rightarrow> (string \<times> map_stats) list \<Rightarrow> (string \<times> map_stats) list" where
  "upd_stats k f bm = map (\<lambda>(k', s). if k' = k then (k', f s) else (k', s)) bm"

text \<open>One iteration of the grouping loop (lines 555-576 and 691-710).\<close>

definition group_step ::
  "VerificationResult \<Rightarrow> (string \<times> map_stats) list \<times> discrepancy_detail list
     \<Rightarrow> (string \<times> map_stats) list \<times> discrepancy_detail list" where
  "group_step r acc =
     (let k = map_name r;
          bm0 = (if k \<notin> fst ` set (fst acc) then fst acc @ [(k, zero_stats)] else fst acc);
          bm1 = upd_stats k (\<lambda>s. s\<lparr>ms_total := ms_total s + 1\<rparr>) bm0
      in if is_match r
         then (upd_stats k (\<lambda>s. s\<lparr>ms_matched := ms_matched s + 1\<rparr>) bm1, snd acc)
         else if truthy_num (distance r)
         then (upd_stats k (\<lambda>s. s\<lparr>ms_discrepancies := ms_discrepancies s + 1\<rparr>) bm1,
               snd acc @ [detail_of r])
         else (upd_stats k (\<lambda>s. s\<lparr>ms_missing := ms_missing s + 1\<rparr>) bm1, snd acc))"

fun group_loop ::
  "VerificationResult list \<Rightarrow> (string \<times> map_stats) list \<times> discrepancy_detail list
     \<Rightarrow> (string \<times> map_stats) list \<times> discrepancy_detail list" where
  "group_loop [] acc = acc"
| "group_loop (r # rs) acc = group_loop rs (group_step r acc)"

definition generate_json_report :: "MarkerVerifier \<Rightarrow> report" where
  "generate_json_report self =
     (let grouped = group_loop (results self) ([], []) in
      \<lparr>total_markers = length (results self),
       matched = length (filter is_match (results self)),
       discrepancies =
         length (filter (\<lambda>r. \<not> is_match r \<and> truthy_num (distance r)) (results self)),
       missing = length (filter (\<lambda>r. truthy_str (error r)) (results self)),
       by_map = fst grouped,
       discrepancy_details = snd grouped\<rparr>)"

text \<open>\<open>_generate_html_report\<close>: without jinja2 it falls back to the JSON report;
  otherwise the template receives the first 50 detail records.\<close>

definition generate_html_report :: "bool \<Rightarrow> MarkerVerifier \<Rightarrow> report" where
  "generate_html_report JINJA_AVAILABLE self =
     (if \<not> JINJA_AVAILABLE then generate_json_report self
      else (let grouped = group_loop (results self) ([], []) in
        \<lparr>total_markers = length (results self),
         matched = length (filter is_match (results self)),
         discrepancies =
           length (filter (\<lambda>r. \<not> is_match r \<and> truthy_num (distance r)) (results self)),
         missing = length (filter (\<lambda>r. truthy_str (error r)) (results self)),
         by_map = fst grouped,
         discrepancy_details = take 50 (snd grouped)\<rparr>))"


text \<open>The shape of a result built by \<open>compare_positions\<close>: either a distance and a
  secondary position were recorded and no error, or neither was recorded and an error is set.\<close>

definition compare_shaped :: "pyfloat \<Rightarrow> VerificationResult \<Rightarrow> bool" where
  "compare_shaped tolerance r \<longleftrightarrow>
     (\<exists>d. distance r = Some d \<and> web_x r \<noteq> None \<and> error r = None \<and>
           is_match r = fle d tolerance) \<or>
     (distance r = None \<and> web_x r = None \<and> truthy_str (error r) \<and> \<not> is_match r)"

text \<open>The secondary entries that carry a given uid, in list order.\<close>

definition with_uid :: "string \<Rightarrow> MarkerPosition list \<Rightarrow> MarkerPosition list" where
  "with_uid u webs = filter (\<lambda>m. mp_uid m = u) webs"


text \<open>Every distance \<open>compare_positions\<close> may ask for can be computed: no power
  overflows.\<close>

definition computable :: "float_ops \<Rightarrow> MarkerPosition list \<Rightarrow> MarkerPosition list \<Rightarrow> bool" where
  "computable fp apis webs \<longleftrightarrow> (\<forall>a\<in>set apis. \<forall>u\<in>set webs. \<exists>d. euclid fp a u = Inr d)"



section \<open>Marker synchronisation (scripts/sync\_markers\_to\_sqlite.py)\<close>

text \<open>
  A raw marker record is a loosely structured JSON object; every key may be absent or
  \<open>null\<close> (both read as \<open>None\<close> by \<open>dict.get\<close>).  The values are taken at their
  documented JSON types: text, an integer \<open>level\<close> of any size, float coordinates.  A JSON object whose keys matter (\<open>geometry\<close>, the localisation
  tables) is an association list, so that the empty object is the empty list.
\<close>

record image_payload =
  img_img :: "string option"
  img_name :: "string option"
  img_desc :: "string option"

record marker_payload =
  p_uid :: "string option"
  p_category :: "string option"
  p_subCategory :: "string option"
  p_name :: "string option"
  p_name_l10n :: "(string \<times> string) list option"
  p_desc :: "string option"
  p_desc_l10n :: "(string \<times> string) list option"
  p_geometry :: "(string \<times> pyfloat option) list option"
  p_level :: "int option"
  p_questUid :: "string option"
  p_itemsUid :: "string list option"
  p_imgs :: "image_payload list option"
  p_updated :: "string option"

text \<open>
  A row of table \<open>markers\<close>.  Columns declared \<open>NOT NULL\<close> carry a value; the others are
  optional.  \<open>uid\<close> is \<open>TEXT PRIMARY KEY\<close> without \<open>NOT NULL\<close>, which SQLite lets be
  \<open>NULL\<close>.  The two JSON text columns are represented by the list they serialise, and
  \<open>synced_at\<close> by the clock reading of \<open>datetime('now')\<close>.
\<close>

record marker_row =
  m_uid :: "string option"
  m_map :: string
  m_category :: string
  m_sub_category :: "string option"
  m_name :: string
  m_name_ko :: "string option"
  m_name_ru :: "string option"
  m_description :: "string option"
  m_description_ko :: "string option"
  m_geometry_x :: pyfloat
  m_geometry_y :: pyfloat
  m_level :: "int option"
  m_quest_uid :: "string option"
  m_items_uid :: "string list option"
  m_images :: "image_payload list option"
  m_updated_at :: "string option"
  m_synced_at :: nat
  m_is_verified :: bool
  m_verification_distance :: "pyfloat option"

text \<open>A row of table \<open>marker_images\<close>; \<open>id\<close> is \<open>INTEGER PRIMARY KEY AUTOINCREMENT\<close>.\<close>

record image_row =
  i_id :: nat
  i_marker_uid :: string
  i_image_url :: string
  i_image_name :: "string option"
  i_image_description :: "string option"
  i_display_order :: nat

text \<open>The part of the database \<open>sync_markers\<close> touches: the two tables and the
  \<open>sqlite_sequence\<close> counter of \<open>marker_images\<close>.\<close>

record database =
  markers :: "marker_row list"
  marker_images :: "image_row list"
  image_seq :: nat

text \<open>The values bound to the sixteen placeholders of the \<open>INSERT OR REPLACE\<close>.\<close>

record marker_values =
  v_uid :: "string option"
  v_map :: string
  v_category :: "string option"
  v_sub_category :: "string option"
  v_name :: "string option"
  v_name_ko :: "string option"
  v_name_ru :: "string option"
  v_description :: "string option"
  v_description_ko :: "string option"
  v_geometry_x :: "pyfloat option"
  v_geometry_y :: "pyfloat option"
  v_level :: "int option"
  v_quest_uid :: "string option"
  v_items_uid :: "string list option"
  v_images :: "image_payload list option"
  v_updated_at :: "string option"

text \<open>What SQLite stores for a bound float: NaN is stored as \<open>NULL\<close>.\<close>

definition sql_real :: "pyfloat option \<Rightarrow> pyfloat option" where
  "sql_real v = (case v of None \<Rightarrow> None | Some x \<Rightarrow> (if x = NaN then None else Some x))"

text \<open>The integers the \<open>sqlite3\<close> module can bind.\<close>

definition int64 :: "int \<Rightarrow> bool" where
  "int64 n \<longleftrightarrow> - (2 ^ 63) \<le> n \<and> n < 2 ^ 63"

text \<open>
  \<open>INSERT OR REPLACE INTO markers (uid, ..., updated_at, synced_at) VALUES (..., datetime('now'))\<close>.
  Binding comes first: an integer \<open>level\<close> outside 64 bits raises \<open>OverflowError\<close>.
  Then a \<open>NULL\<close> in a \<open>NOT NULL\<close> column without default aborts the statement
  (\<open>sqlite3.IntegrityError\<close>).  Otherwise every row whose primary key equals the new
  uid is deleted (\<open>NULL\<close> equals nothing) and the new row is inserted; the columns the
  statement does not list, \<open>is_verified\<close> and \<open>verification_distance\<close>, receive their
  schema defaults \<open>FALSE\<close> and \<open>NULL\<close>.
\<close>

definition insert_or_replace_marker ::
  "marker_values \<Rightarrow> nat \<Rightarrow> database \<Rightarrow> py_error + database" where
  "insert_or_replace_marker v now db =
     (if (case v_level v of None \<Rightarrow> False | Some n \<Rightarrow> \<not> int64 n) then Inl OverflowError else
      case v_category v of None \<Rightarrow> Inl IntegrityError | Some cat \<Rightarrow>
      case v_name v of None \<Rightarrow> Inl IntegrityError | Some nm \<Rightarrow>
      case sql_real (v_geometry_x v) of None \<Rightarrow> Inl IntegrityError | Some gx \<Rightarrow>
      case sql_real (v_geometry_y v) of None \<Rightarrow> Inl IntegrityError | Some gy \<Rightarrow>
        Inr (db\<lparr>markers :=
          filter (\<lambda>r. v_uid v = None \<or> m_uid r \<noteq> v_uid v) (markers db) @
          [\<lparr>m_uid = v_uid v, m_map = v_map v, m_category = cat,
            m_sub_category = v_sub_category v, m_name = nm,
            m_name_ko = v_name_ko v, m_name_ru = v_name_ru v,
            m_description = v_description v, m_description_ko = v_description_ko v,
            m_geometry_x = gx, m_geometry_y = gy, m_level = v_level v,
            m_quest_uid = v_quest_uid v, m_items_uid = v_items_uid v,
            m_images = v_images v, m_updated_at = v_updated_at v,
            m_synced_at = now, m_is_verified = False,
            m_verification_distance = None\<rparr>]\<rparr>))"

text \<open>\<open>DELETE FROM marker_images WHERE marker_uid = ?\<close>; with \<open>NULL\<close> bound the
  comparison is never true.\<close>

definition delete_marker_images :: "string option \<Rightarrow> database \<Rightarrow> database" where
  "delete_marker_images u db =
     db\<lparr>marker_images := filter (\<lambda>r. Some (i_marker_uid r) \<noteq> u) (marker_images db)\<rparr>"

text \<open>
  \<open>INSERT INTO marker_images (marker_uid, image_url, image_name, image_description,
  display_order) VALUES (?, ?, ?, ?, ?)\<close>.  \<open>marker_uid\<close> and \<open>image_url\<close> are
  \<open>NOT NULL\<close>.  The new id is one more than the larger of the sequence counter and the
  largest id in the table.
\<close>

definition insert_marker_image ::
  "string option \<Rightarrow> image_payload \<Rightarrow> nat \<Rightarrow> database \<Rightarrow> py_error + database" where
  "insert_marker_image u img idx db =
     (case u of None \<Rightarrow> Inl IntegrityError | Some uid \<Rightarrow>
      case img_img img of None \<Rightarrow> Inl IntegrityError | Some url \<Rightarrow>
        (let new_id = Suc (fold max (map i_id (marker_images db)) (image_seq db)) in
         Inr (db\<lparr>marker_images := marker_images db @
                 [\<lparr>i_id = new_id, i_marker_uid = uid, i_image_url = url,
                   i_image_name = img_name img, i_image_description = img_desc img,
                   i_display_order = idx\<rparr>],
               image_seq := new_id\<rparr>)))"

text \<open>\<open>for idx, img in enumerate(marker.get("imgs", [])): cursor.execute(...)\<close>\<close>

fun insert_images_loop ::
  "string option \<Rightarrow> image_payload list \<Rightarrow> nat \<Rightarrow> database \<Rightarrow> py_error + database" where
  "insert_images_loop u [] idx db = Inr db"
| "insert_images_loop u (img # imgs) idx db =
     (case insert_marker_image u img idx db of
        Inl e \<Rightarrow> Inl e
      | Inr db' \<Rightarrow> insert_images_loop u imgs (Suc idx) db')"

text \<open>Python truthiness of an optional list: \<open>None\<close> and \<open>[]\<close> are false.\<close>

definition truthy_list :: "'a list option \<Rightarrow> bool" where
  "truthy_list xs = (case xs of None \<Rightarrow> False | Some ys \<Rightarrow> ys \<noteq> [])"

text \<open>\<open>d.get(k)\<close> on a dictionary given as an association list.\<close>

definition dict_get :: "(string \<times> 'a) list \<Rightarrow> string \<Rightarrow> 'a option" where
  "dict_get d k = map_of d k"

text \<open>\<open>marker.get(key, {}) or {}\<close>\<close>

definition or_empty :: "'a list option \<Rightarrow> 'a list" where
  "or_empty d = (case d of None \<Rightarrow> [] | Some xs \<Rightarrow> xs)"

definition marker_values_of :: "marker_payload \<Rightarrow> string \<Rightarrow> marker_values" where
  "marker_values_of marker mname =
     (let geometry = or_empty (p_geometry marker);
          name_l10n = or_empty (p_name_l10n marker);
          desc_l10n = or_empty (p_desc_l10n marker);
          items_uid = (if truthy_list (p_itemsUid marker) then p_itemsUid marker else None);
          images = (if truthy_list (p_imgs marker) then p_imgs marker else None)
      in \<lparr>v_uid = p_uid marker, v_map = mname, v_category = p_category marker,
          v_sub_category = p_subCategory marker, v_name = p_name marker,
          v_name_ko = dict_get name_l10n ''ko'', v_name_ru = dict_get name_l10n ''ru'',
          v_description = p_desc marker, v_description_ko = dict_get desc_l10n ''ko'',
          v_geometry_x = (case dict_get geometry ''x'' of None \<Rightarrow> None | Some x \<Rightarrow> x),
          v_geometry_y = (case dict_get geometry ''y'' of None \<Rightarrow> None | Some y \<Rightarrow> y),
          v_level = p_level marker, v_quest_uid = p_questUid marker,
          v_items_uid = items_uid, v_images = images, v_updated_at = p_updated marker\<rparr>)"

text \<open>One pass of the loop body of \<open>sync_markers\<close> for a record that is not skipped:
  the upsert, then the image rows when \<open>imgs\<close> is a non-empty list.\<close>

definition store_marker ::
  "marker_payload \<Rightarrow> string \<Rightarrow> nat \<Rightarrow> database \<Rightarrow> py_error + database" where
  "store_marker marker mname now db =
     (case insert_or_replace_marker (marker_values_of marker mname) now db of
        Inl e \<Rightarrow> Inl e
      | Inr db1 \<Rightarrow>
          if truthy_list (p_imgs marker)
          then insert_images_loop (p_uid marker) (or_empty (p_imgs marker)) 0
                 (delete_marker_images (p_uid marker) db1)
          else Inr db1)"

text \<open>The loop of \<open>sync_markers\<close> with its counter: a record whose \<open>geometry\<close> is
  absent, \<open>null\<close> or empty is passed over (\<open>continue\<close>).\<close>

fun sync_loop ::
  "marker_payload list \<Rightarrow> string \<Rightarrow> nat \<Rightarrow> database \<Rightarrow> nat \<Rightarrow> py_error + database \<times> nat" where
  "sync_loop [] mname now db synced_count = Inr (db, synced_count)"
| "sync_loop (marker # rest) mname now db synced_count =
     (if or_empty (p_geometry marker) = [] then sync_loop rest mname now db synced_count
      else case store_marker marker mname now db of
             Inl e \<Rightarrow> Inl e
           | Inr db' \<Rightarrow> sync_loop rest mname now db' (synced_count + 1))"

text \<open>
  \<open>sync_markers\<close>.  The connection commits after the loop; an exception leaves the
  function before \<open>commit\<close>, so on \<open>Inl\<close> the database is the one from before the call.
  \<open>now\<close> is the clock reading \<open>datetime('now')\<close> gives during the call.
\<close>

definition sync_markers ::
  "marker_payload list \<Rightarrow> string \<Rightarrow> nat \<Rightarrow> database \<Rightarrow> py_error + database \<times> nat" where
  "sync_markers ms mname now db = sync_loop ms mname now db 0"


text \<open>Auxiliary predicates used to state properties of \<open>sync_markers\<close>: the record is
  not passed over by the loop, and the two statements accept it.\<close>

definition has_geometry :: "marker_payload \<Rightarrow> bool" where
  "has_geometry marker = (or_empty (p_geometry marker) \<noteq> [])"

definition storable :: "marker_payload \<Rightarrow> bool" where
  "storable marker \<longleftrightarrow>
     p_category marker \<noteq> None \<and> p_name marker \<noteq> None \<and>
     (case p_level marker of None \<Rightarrow> True | Some n \<Rightarrow> int64 n) \<and>
     dict_get (or_empty (p_geometry marker)) ''x'' \<notin> {None, Some None, Some (Some NaN)} \<and>
     dict_get (or_empty (p_geometry marker)) ''y'' \<notin> {None, Some None, Some (Some NaN)} \<and>
     (truthy_list (p_imgs marker) \<longrightarrow>
        p_uid marker \<noteq> None \<and> (\<forall>img\<in>set (or_empty (p_imgs marker)). img_img img \<noteq> None))"

text \<open>An image row without its surrogate key.\<close>

definition strip_id :: "image_row \<Rightarrow> image_row" where
  "strip_id r = r\<lparr>i_id := 0\<rparr>"

text \<open>The source-derived columns of a row hold the values of a payload synced for map
  \<open>mname\<close> at clock reading \<open>now\<close>.\<close>

definition stored_as :: "marker_payload \<Rightarrow> string \<Rightarrow> nat \<Rightarrow> marker_row \<Rightarrow> bool" where
  "stored_as marker mname now row \<longleftrightarrow>
     m_uid row = p_uid marker \<and> m_map row = mname \<and>
     Some (m_category row) = p_category marker \<and>
     m_sub_category row = p_subCategory marker \<and>
     Some (m_name row) = p_name marker \<and>
     m_name_ko row = dict_get (or_empty (p_name_l10n marker)) ''ko'' \<and>
     m_name_ru row = dict_get (or_empty (p_name_l10n marker)) ''ru'' \<and>
     m_description row = p_desc marker \<and>
     m_description_ko row = dict_get (or_empty (p_desc_l10n marker)) ''ko'' \<and>
     dict_get (or_empty (p_geometry marker)) ''x'' = Some (Some (m_geometry_x row)) \<and>
     dict_get (or_empty (p_geometry marker)) ''y'' = Some (Some (m_geometry_y row)) \<and>
     m_level row = p_level marker \<and> m_quest_uid row = p_questUid marker \<and>
     m_items_uid row = (if truthy_list (p_itemsUid marker) then p_itemsUid marker else None) \<and>
     m_images row = (if truthy_list (p_imgs marker) then p_imgs marker else None) \<and>
     m_updated_at row = p_updated marker \<and>
     m_synced_at row = now"

text \<open>The bound values pass the binding and the \<open>NOT NULL\<close> constraints of \<open>markers\<close>.\<close>

definition accepted :: "marker_values \<Rightarrow> bool" where
  "accepted v \<longleftrightarrow>
     (case v_level v of None \<Rightarrow> True | Some n \<Rightarrow> int64 n) \<and>
     v_category v \<noteq> None \<and> v_name v \<noteq> None \<and>
     sql_real (v_geometry_x v) \<noteq> None \<and> sql_real (v_geometry_y v) \<noteq> None"

text \<open>A row as the upsert writes it for a payload: the payload's values, not verified.\<close>

definition fresh_row :: "string \<Rightarrow> nat \<Rightarrow> marker_payload \<Rightarrow> marker_row \<Rightarrow> bool" where
  "fresh_row mname now marker row \<longleftrightarrow>
     stored_as marker mname now row \<and> \<not> m_is_verified row \<and>
     m_verification_distance row = None"

text \<open>Of the records stored in one call, those whose row is still there at the end: a
  record is replaced by a later one with the same (non-null) uid.\<close>

fun survivors :: "marker_payload list \<Rightarrow> marker_payload list" where
  "survivors [] = []"
| "survivors (m # ms) =
     (if p_uid m \<noteq> None \<and> p_uid m \<in> p_uid ` set ms then survivors ms
      else m # survivors ms)"

text \<open>The image rows a record asks for, without ids, and the records whose image rows
  are still there at the end: a later record with images and the same uid replaces them.\<close>

fun image_rows :: "string \<Rightarrow> image_payload list \<Rightarrow> nat \<Rightarrow> image_row list" where
  "image_rows u [] idx = []"
| "image_rows u (img # imgs) idx =
     (case img_img img of
        None \<Rightarrow> []
      | Some url \<Rightarrow>
          [\<lparr>i_id = 0, i_marker_uid = u, i_image_url = url, i_image_name = img_name img,
            i_image_description = img_desc img, i_display_order = idx\<rparr>]) @
     image_rows u imgs (Suc idx)"

definition image_rows_of :: "marker_payload \<Rightarrow> image_row list" where
  "image_rows_of marker =
     (case p_uid marker of
        None \<Rightarrow> []
      | Some u \<Rightarrow> image_rows u (or_empty (p_imgs marker)) 0)"

definition with_images :: "marker_payload list \<Rightarrow> marker_payload list" where
  "with_images ms = filter (\<lambda>m. truthy_list (p_imgs m)) ms"


section \<open>Payload decoder (\<open>TarkovMarketDecoder.decode\<close>, the same in both scripts)\<close>

text \<open>
  The three library calls \<open>base64.b64decode\<close>, \<open>bytes.decode('utf-8')\<close> and
  \<open>urllib.parse.unquote\<close> are parameters; each returns \<open>Inl\<close> where the library raises.
  \<open>encoded[:5] + encoded[10:]\<close> is slicing, which never raises.  The whole body is inside
  \<open>try ... except Exception\<close>, which returns \<open>None\<close>.
\<close>

definition decode ::
  "('c list \<Rightarrow> 'e + 'b) \<Rightarrow> ('b \<Rightarrow> 'e + 't) \<Rightarrow> ('t \<Rightarrow> 'e + 'j) \<Rightarrow> 'c list \<Rightarrow> 'j option" where
  "decode b64decode utf8_decode unquote encoded =
     (let processed = take 5 encoded @ drop 10 encoded in
      case b64decode processed of
        Inl e \<Rightarrow> None
      | Inr decoded_bytes \<Rightarrow>
          (case utf8_decode decoded_bytes of
             Inl e \<Rightarrow> None
           | Inr url_encoded \<Rightarrow>
               (case unquote url_encoded of
                  Inl e \<Rightarrow> None
                | Inr json_str \<Rightarrow> Some json_str)))"


section \<open>Example data\<close>

text \<open>
  Arithmetic without rounding, on finite values (anything else gives NaN, which no example
  reaches).  Binary64 arithmetic returns the exact result of an operation whenever that
  result is representable.  In every example below each difference, square, sum and root
  is a small multiple of 1/4, so the code computes exactly what \<open>exact_ops\<close> computes.
\<close>

fun lift2 :: "(real \<Rightarrow> real \<Rightarrow> real) \<Rightarrow> pyfloat \<Rightarrow> pyfloat \<Rightarrow> pyfloat" where
  "lift2 f (Fin x) (Fin y) = Fin (f x y)"
| "lift2 f a b = NaN"

fun lift1 :: "(real \<Rightarrow> real) \<Rightarrow> pyfloat \<Rightarrow> py_error + pyfloat" where
  "lift1 f (Fin x) = Inr (Fin (f x))"
| "lift1 f a = Inr NaN"

definition exact_ops :: float_ops where
  "exact_ops = \<lparr>fsub = lift2 (-), fadd = lift2 (+), fmul = lift2 (*),
                 fsquare = lift1 (\<lambda>x. x * x), fsqrt = lift1 sqrt\<rparr>"

text \<open>The end-to-end scenario on one line of the map: primary markers A, B, C, a
  secondary marker identified as A at the same place and an unidentified one near B.\<close>

definition scenario_primary :: "MarkerPosition list" where
  "scenario_primary =
     [\<lparr>mp_uid = ''A'', mp_name = ''A'', mp_x = Fin 0, mp_y = Fin 0, mp_category = ''Quests'',
       mp_sub_category = [], mp_map_name = ''customs'', mp_level = None\<rparr>,
      \<lparr>mp_uid = ''B'', mp_name = ''B'', mp_x = Fin 10, mp_y = Fin 0, mp_category = ''Loot'',
       mp_sub_category = [], mp_map_name = ''customs'', mp_level = None\<rparr>,
      \<lparr>mp_uid = ''C'', mp_name = ''C'', mp_x = Fin 20, mp_y = Fin 0, mp_category = ''Quests'',
       mp_sub_category = [], mp_map_name = ''customs'', mp_level = None\<rparr>]"

definition scenario_secondary :: "MarkerPosition list" where
  "scenario_secondary =
     [\<lparr>mp_uid = ''A'', mp_name = [], mp_x = Fin 0, mp_y = Fin 0, mp_category = [],
       mp_sub_category = [], mp_map_name = ''customs'', mp_level = None\<rparr>,
      \<lparr>mp_uid = ''web_0'', mp_name = [], mp_x = Fin (21/2), mp_y = Fin 0, mp_category = [],
       mp_sub_category = [], mp_map_name = ''customs'', mp_level = None\<rparr>]"

definition scenario :: MarkerVerifier where
  "scenario = \<lparr>api_markers = [''customs'' \<mapsto> scenario_primary],
               web_markers = [''customs'' \<mapsto> scenario_secondary], results = []\<rparr>"

text \<open>One primary marker with the secondary marker of the same uid at the same place.\<close>

definition same_place :: MarkerVerifier where
  "same_place =
     \<lparr>api_markers = [''customs'' \<mapsto> [scenario_primary ! 0]],
      web_markers = [''customs'' \<mapsto> [scenario_secondary ! 0]], results = []\<rparr>"

text \<open>One primary marker at the origin and one unidentified secondary marker at (3, 4).\<close>

definition far_apart :: MarkerVerifier where
  "far_apart =
     \<lparr>api_markers = [''customs'' \<mapsto> [scenario_primary ! 0]],
      web_markers = [''customs'' \<mapsto>
        [\<lparr>mp_uid = ''web_0'', mp_name = [], mp_x = Fin 3, mp_y = Fin 4, mp_category = [],
          mp_sub_category = [], mp_map_name = ''customs'', mp_level = None\<rparr>]],
      results = []\<rparr>"

text \<open>A verification result that is a discrepancy (distance 5, not a match).\<close>

definition far_result :: VerificationResult where
  "far_result =
     \<lparr>marker_uid = ''A'', marker_name = ''A'', map_name = ''customs'',
      api_x = Fin 0, api_y = Fin 0, web_x = Some (Fin 3), web_y = Some (Fin 4),
      distance = Some (Fin 5), is_match = False, error = None, screenshot_path = None\<rparr>"


text \<open>A detail-heavy verifier state: 51 discrepancy results.\<close>

definition far_verifier :: MarkerVerifier where
  "far_verifier =
     \<lparr>api_markers = Map.empty, web_markers = Map.empty, results = replicate 51 far_result\<rparr>"


text \<open>A marker record with one image, the same record with an empty image list and
  without geometry, and a database in which the marker is stored, verified, with its
  image row.\<close>

definition stash_image :: image_payload where
  "stash_image = \<lparr>img_img = Some ''a.png'', img_name = None, img_desc = None\<rparr>"

definition stash_payload :: marker_payload where
  "stash_payload =
     \<lparr>p_uid = Some ''m1'', p_category = Some ''Loot'', p_subCategory = None,
      p_name = Some ''Stash'', p_name_l10n = None, p_desc = None, p_desc_l10n = None,
      p_geometry = Some [(''x'', Some (Fin 1)), (''y'', Some (Fin 2))], p_level = None,
      p_questUid = None, p_itemsUid = None, p_imgs = Some [stash_image],
      p_updated = None\<rparr>"

definition stash_row :: marker_row where
  "stash_row =
     \<lparr>m_uid = Some ''m1'', m_map = ''woods'', m_category = ''Loot'', m_sub_category = None,
      m_name = ''Stash'', m_name_ko = None, m_name_ru = None, m_description = None,
      m_description_ko = None, m_geometry_x = Fin 1, m_geometry_y = Fin 2, m_level = None,
      m_quest_uid = None, m_items_uid = None, m_images = Some [stash_image],
      m_updated_at = None, m_synced_at = 1, m_is_verified = True,
      m_verification_distance = Some (Fin (3/2))\<rparr>"

definition stash_image_row :: image_row where
  "stash_image_row =
     \<lparr>i_id = 1, i_marker_uid = ''m1'', i_image_url = ''a.png'', i_image_name = None,
      i_image_description = None, i_display_order = 0\<rparr>"

definition verified_db :: database where
  "verified_db = \<lparr>markers = [stash_row], marker_images = [stash_image_row], image_seq = 1\<rparr>"

definition empty_db :: database where
  "empty_db = \<lparr>markers = [], marker_images = [], image_seq = 0\<rparr>"


section \<open>Properties of the position verifier\<close>

lemma flt_NaN_right [simp]: "flt a NaN = False"
  by (cases a) simp_all

lemma fle_NaN_right [simp]: "fle a NaN = False"
  by (cases a) simp_all

lemma flt_irrefl [simp]: "\<not> flt a a"
  by (cases a) simp_all







lemma fle_iff_not_flt: "a \<noteq> NaN \<Longrightarrow> b \<noteq> NaN \<Longrightarrow> fle a b \<longleftrightarrow> \<not> flt b a"
  by (cases a; cases b) auto

lemma web_lookup_from_eq:
  "web_lookup_from d ws u =
     (if u \<noteq> [] \<and> with_uid u ws \<noteq> [] then Some (last (with_uid u ws)) else d u)"
  by (induction ws arbitrary: d) (auto simp: with_uid_def)

lemma web_lookup_eq:
  "web_lookup ws u =
     (if u \<noteq> [] \<and> with_uid u ws \<noteq> [] then Some (last (with_uid u ws)) else None)"
  by (simp add: web_lookup_def web_lookup_from_eq)



lemma nearest_loop_total:
  assumes "\<forall>u\<in>set ws. \<exists>d. euclid fp a u = Inr d"
  shows "\<exists>st'. nearest_loop fp a ws st = Inr st'"
  using assms
proof (induction ws arbitrary: st)
  case Nil
  then show ?case by simp
next
  case (Cons u us)
  then obtain d where "euclid fp a u = Inr d" by auto
  with Cons show ?case by simp
qed

lemma compare_loop_Inr:
  "compare_loop fp mname tolerance webs apis = Inr rs \<Longrightarrow>
     length rs = length apis \<and>
     (\<forall>i<length apis. compare_marker fp mname tolerance webs (apis ! i) = Inr (rs ! i))"
proof (induction apis arbitrary: rs)
  case Nil
  then show ?case by simp
next
  case (Cons a apis)
  from Cons.prems obtain r rs' where
    r: "compare_marker fp mname tolerance webs a = Inr r"
    and l: "compare_loop fp mname tolerance webs apis = Inr rs'"
    and rs: "rs = r # rs'"
    by (auto split: sum.splits)
  from Cons.IH[OF l] have ih: "length rs' = length apis"
    "\<forall>i<length apis. compare_marker fp mname tolerance webs (apis ! i) = Inr (rs' ! i)"
    by auto
  show ?case
  proof (intro conjI allI impI)
    show "length rs = length (a # apis)" using ih(1) rs by simp
  next
    fix i assume "i < length (a # apis)"
    then show "compare_marker fp mname tolerance webs ((a # apis) ! i) = Inr (rs ! i)"
      using r ih(2) rs by (cases i) auto
  qed
qed

lemma compare_loop_total:
  assumes "\<forall>a\<in>set apis. \<exists>r. compare_marker fp mname tolerance webs a = Inr r"
  shows "\<exists>rs. compare_loop fp mname tolerance webs apis = Inr rs"
  using assms
proof (induction apis)
  case Nil
  then show ?case by simp
next
  case (Cons a apis)
  then obtain r rs where "compare_marker fp mname tolerance webs a = Inr r"
    "compare_loop fp mname tolerance webs apis = Inr rs" by auto
  then show ?case by simp
qed



lemma compare_marker_total:
  assumes "\<forall>u\<in>set webs. \<exists>d. euclid fp a u = Inr d"
  shows "\<exists>r. compare_marker fp mname tolerance webs a = Inr r"
proof (cases "web_lookup webs (mp_uid a)")
  case None
  from nearest_loop_total[OF assms, of "(PInf, None)"] obtain md nw where
    "nearest_loop fp a webs (PInf, None) = Inr (md, nw)" by auto
  with None show ?thesis
    by (cases nw) (simp_all add: compare_marker_def Let_def)
next
  case (Some w)
  then have "w \<in> set webs"
    by (auto simp: web_lookup_eq with_uid_def split: if_splits
             dest: last_in_set[of "filter (\<lambda>m. mp_uid m = mp_uid a) webs"])
  with assms obtain d where "euclid fp a w = Inr d" by auto
  with Some show ?thesis by (simp add: compare_marker_def Let_def)
qed

lemma compare_positions_nonempty:
  assumes "web_markers self mname = Some webs" "webs \<noteq> []"
  shows "compare_positions fp self mname tolerance cf =
           (case compare_loop fp mname tolerance webs (considered self mname cf) of
              Inl e \<Rightarrow> Inl e
            | Inr rs \<Rightarrow> Inr (rs, self\<lparr>results := results self @ rs\<rparr>))"
  using assms by (simp add: compare_positions_def Let_def)

lemma compare_positions_empty:
  assumes "web_markers self mname = None \<or> web_markers self mname = Some []"
  shows "compare_positions fp self mname tolerance cf =
           Inr (map (\<lambda>a. (new_result a mname)\<lparr>error := Some no_web_error\<rparr>) (considered self mname cf),
                self\<lparr>results := results self @
                  map (\<lambda>a. (new_result a mname)\<lparr>error := Some no_web_error\<rparr>) (considered self mname cf)\<rparr>)"
  using assms by (auto simp: compare_positions_def Let_def)

lemma compare_positions_returns:
  assumes "web_markers self mname = Some webs"
      and "computable fp (considered self mname cf) webs"
  shows "\<exists>rs. compare_positions fp self mname tolerance cf =
                Inr (rs, self\<lparr>results := results self @ rs\<rparr>)"
proof (cases "webs = []")
  case True
  with assms(1) show ?thesis by (simp add: compare_positions_def Let_def)
next
  case False
  have "\<forall>a\<in>set (considered self mname cf). \<exists>r. compare_marker fp mname tolerance webs a = Inr r"
    using assms(2) compare_marker_total unfolding computable_def by blast
  from compare_loop_total[OF this] obtain rs where
    "compare_loop fp mname tolerance webs (considered self mname cf) = Inr rs" ..
  then show ?thesis
    by (simp add: compare_positions_nonempty[OF assms(1) False])
qed

lemma compare_positions_nth:
  assumes "web_markers self mname = Some webs" "webs \<noteq> []"
      and "compare_positions fp self mname tolerance cf = Inr (rs, self')"
  shows "length rs = length (considered self mname cf) \<and>
         (\<forall>i<length (considered self mname cf).
            compare_marker fp mname tolerance webs (considered self mname cf ! i) = Inr (rs ! i))"
proof -
  from assms(3) have "compare_loop fp mname tolerance webs (considered self mname cf) = Inr rs"
    unfolding compare_positions_nonempty[OF assms(1,2)] by (auto split: sum.splits)
  then show ?thesis by (rule compare_loop_Inr)
qed


text \<open>
  Claim C8.  When the secondary (web) set of the map is empty or was never extracted,
  \<open>compare_positions\<close> returns, with one result per considered primary entry; each has no
  secondary position, no distance, \<open>is_match = False\<close> and the error text set, and no
  matching is attempted (no arithmetic is done), so the matched count of the returned
  list is 0.  The results are appended to \<open>self.results\<close>.
\<close>

theorem empty_secondary_all_missing:
  assumes "web_markers self mname = None \<or> web_markers self mname = Some []"
  shows "\<exists>rs. compare_positions fp self mname tolerance cf =
                 Inr (rs, self\<lparr>results := results self @ rs\<rparr>) \<and>
           length rs = length (considered self mname cf) \<and>
           (\<forall>r\<in>set rs. web_x r = None \<and> web_y r = None \<and> distance r = None \<and>
                         \<not> is_match r \<and> error r = Some no_web_error \<and> truthy_str (error r)) \<and>
           stat_matched rs = 0"
  unfolding compare_positions_empty[OF assms]
  by (auto simp: new_result_def stat_matched_def truthy_str_def no_web_error_def)



lemma group_loop_details:
  "snd (group_loop rs acc) =
     snd acc @ map detail_of (filter (\<lambda>r. \<not> is_match r \<and> truthy_num (distance r)) rs)"
  by (induction rs arbitrary: acc) (auto simp: group_step_def Let_def)

lemma truthy_str_iff: "truthy_str s \<longleftrightarrow> (\<exists>t. s = Some t \<and> t \<noteq> [])"
  by (cases s) (simp_all add: truthy_str_def)

lemma shaped_partition:
  assumes "compare_shaped tolerance r"
  shows "(is_match r \<and> \<not> (\<not> is_match r \<and> distance r \<noteq> None) \<and> \<not> (error r \<noteq> None \<and> distance r = None)) \<or>
         (\<not> is_match r \<and> (\<not> is_match r \<and> distance r \<noteq> None) \<and> \<not> (error r \<noteq> None \<and> distance r = None)) \<or>
         (\<not> is_match r \<and> \<not> (\<not> is_match r \<and> distance r \<noteq> None) \<and> (error r \<noteq> None \<and> distance r = None))"
  using assms by (auto simp: compare_shaped_def truthy_str_iff)

lemma shaped_cases:
  assumes "compare_shaped tolerance r"
  shows "(is_match r \<and> distance r \<noteq> None \<and> error r = None) \<or>
         (\<not> is_match r \<and> distance r \<noteq> None \<and> error r = None) \<or>
         (\<not> is_match r \<and> distance r = None \<and> error r \<noteq> None)"
  using assms by (auto simp: compare_shaped_def truthy_str_iff)

lemma shaped_unmatched:
  "compare_shaped tolerance r \<Longrightarrow>
     (\<not> is_match r \<and> web_x r \<noteq> None) = (\<not> is_match r \<and> distance r \<noteq> None)"
  by (auto simp: compare_shaped_def)

lemma shaped_missing:
  "compare_shaped tolerance r \<Longrightarrow>
     truthy_str (error r) = (error r \<noteq> None \<and> distance r = None)"
  by (auto simp: compare_shaped_def truthy_str_iff)

lemma shaped_discrepancy:
  "compare_shaped tolerance r \<Longrightarrow> fle (Fin 0) tolerance \<Longrightarrow>
     (\<not> is_match r \<and> truthy_num (distance r)) = (\<not> is_match r \<and> distance r \<noteq> None)"
  by (auto simp: compare_shaped_def truthy_num_def)

lemma filter_cong_set: "(\<forall>r\<in>set rs. P r = Q r) \<Longrightarrow> filter P rs = filter Q rs"
  by (induction rs) auto

lemma three_way_count:
  assumes "\<forall>r\<in>set rs. (P r \<and> \<not> Q r \<and> \<not> R r) \<or> (\<not> P r \<and> Q r \<and> \<not> R r) \<or> (\<not> P r \<and> \<not> Q r \<and> R r)"
  shows "length (filter P rs) + length (filter Q rs) + length (filter R rs) = length rs"
  using assms by (induction rs) auto


lemma compare_marker_shaped:
  "compare_marker fp mname tolerance webs a = Inr r \<Longrightarrow> compare_shaped tolerance r"
  by (auto simp: compare_marker_def Let_def compare_shaped_def new_result_def truthy_str_def
        no_match_error_def split: option.splits sum.splits if_splits prod.splits)

lemma compare_positions_shaped:
  assumes "compare_positions fp self mname tolerance cf = Inr (rs, self')" and "r \<in> set rs"
  shows "compare_shaped tolerance r"
proof (cases "web_markers self mname = None \<or> web_markers self mname = Some []")
  case True
  from assms show ?thesis
    unfolding compare_positions_empty[OF True]
    by (auto simp: compare_shaped_def new_result_def truthy_str_def no_web_error_def)
next
  case False
  then obtain webs where webs: "web_markers self mname = Some webs" "webs \<noteq> []"
    by (cases "web_markers self mname") auto
  from assms(2) obtain i where i: "i < length rs" "r = rs ! i"
    by (auto simp: in_set_conv_nth)
  from compare_positions_nth[OF webs assms(1)] i
  have "compare_marker fp mname tolerance webs (considered self mname cf ! i) = Inr r"
    by simp
  then show ?thesis by (rule compare_marker_shaped)
qed

lemma length_compare_positions:
  assumes "compare_positions fp self mname tolerance cf = Inr (rs, self')"
  shows "length rs = length (considered self mname cf)"
proof (cases "web_markers self mname = None \<or> web_markers self mname = Some []")
  case True
  from assms show ?thesis
    unfolding compare_positions_empty[OF True] by auto
next
  case False
  then obtain webs where webs: "web_markers self mname = Some webs" "webs \<noteq> []"
    by (cases "web_markers self mname") auto
  from compare_positions_nth[OF webs assms] show ?thesis by simp
qed

lemma compare_positions_returns_any:
  assumes "computable fp (considered self mname cf)
             (case web_markers self mname of None \<Rightarrow> [] | Some ms \<Rightarrow> ms)"
  shows "\<exists>rs. compare_positions fp self mname tolerance cf =
                Inr (rs, self\<lparr>results := results self @ rs\<rparr>)"
proof (cases "web_markers self mname")
  case None
  then show ?thesis by (simp add: compare_positions_def Let_def)
next
  case (Some webs)
  with assms have "computable fp (considered self mname cf) webs" by simp
  from compare_positions_returns[OF Some this] show ?thesis .
qed

text \<open>
  Claim C5.  Whenever \<open>compare_positions\<close> returns (it does when no power overflows), every
  result falls into exactly one of the categories matched (\<open>is_match\<close>), discrepancy (no
  match, a distance recorded) and missing (an error recorded, no distance); the three
  counts add up to the number of primary entries considered.  The counts
  \<open>compare_positions\<close> derives itself are these counts, and so are those of the JSON report
  built from the list; the report tests the recorded distance by truthiness, which agrees
  whenever \<open>0 <= tolerance\<close>.
\<close>

theorem summary_counts_partition:
  "(computable fp (considered self mname cf)
       (case web_markers self mname of None \<Rightarrow> [] | Some ms \<Rightarrow> ms) \<longrightarrow>
      (\<exists>rs self'. compare_positions fp self mname tolerance cf = Inr (rs, self'))) \<and>
   (\<forall>rs self'. compare_positions fp self mname tolerance cf = Inr (rs, self') \<longrightarrow>
      (let rep = generate_json_report (self\<lparr>results := rs\<rparr>);
           n_matched = length (filter is_match rs);
           n_discrepancies = length (filter (\<lambda>r. \<not> is_match r \<and> distance r \<noteq> None) rs);
           n_missing = length (filter (\<lambda>r. error r \<noteq> None \<and> distance r = None) rs)
       in length rs = length (considered self mname cf) \<and>
          (\<forall>r\<in>set rs.
             (is_match r \<and> distance r \<noteq> None \<and> error r = None) \<or>
             (\<not> is_match r \<and> distance r \<noteq> None \<and> error r = None) \<or>
             (\<not> is_match r \<and> distance r = None \<and> error r \<noteq> None)) \<and>
          n_matched + n_discrepancies + n_missing = length rs \<and>
          stat_matched rs = n_matched \<and> stat_unmatched rs = n_discrepancies \<and>
          stat_missing rs = n_missing \<and>
          total_markers rep = length rs \<and> matched rep = n_matched \<and> missing rep = n_missing \<and>
          (fle (Fin 0) tolerance \<longrightarrow>
             discrepancies rep = n_discrepancies \<and>
             matched rep + discrepancies rep + missing rep = total_markers rep)))"
proof (intro conjI allI impI)
  assume "computable fp (considered self mname cf)
       (case web_markers self mname of None \<Rightarrow> [] | Some ms \<Rightarrow> ms)"
  from compare_positions_returns_any[OF this]
  show "\<exists>rs self'. compare_positions fp self mname tolerance cf = Inr (rs, self')"
    by blast
next
  fix rs self'
  assume ret: "compare_positions fp self mname tolerance cf = Inr (rs, self')"
  have sh: "\<forall>r\<in>set rs. compare_shaped tolerance r"
    using compare_positions_shaped[OF ret] by blast
  have len: "length rs = length (considered self mname cf)"
    by (rule length_compare_positions[OF ret])
  have shr: "compare_shaped tolerance r" if "r \<in> set rs" for r
    using sh that by (rule bspec)
  have cat: "\<forall>r\<in>set rs.
         (is_match r \<and> distance r \<noteq> None \<and> error r = None) \<or>
         (\<not> is_match r \<and> distance r \<noteq> None \<and> error r = None) \<or>
         (\<not> is_match r \<and> distance r = None \<and> error r \<noteq> None)"
  proof
    fix r assume "r \<in> set rs"
    from shr[OF this] show "(is_match r \<and> distance r \<noteq> None \<and> error r = None) \<or>
         (\<not> is_match r \<and> distance r \<noteq> None \<and> error r = None) \<or>
         (\<not> is_match r \<and> distance r = None \<and> error r \<noteq> None)"
      by (rule shaped_cases)
  qed
  have sum: "length (filter is_match rs) +
             length (filter (\<lambda>r. \<not> is_match r \<and> distance r \<noteq> None) rs) +
             length (filter (\<lambda>r. error r \<noteq> None \<and> distance r = None) rs) = length rs"
  proof (rule three_way_count, rule ballI)
    fix r assume "r \<in> set rs"
    from shr[OF this] show "(is_match r \<and> \<not> (\<not> is_match r \<and> distance r \<noteq> None) \<and> \<not> (error r \<noteq> None \<and> distance r = None)) \<or>
         (\<not> is_match r \<and> (\<not> is_match r \<and> distance r \<noteq> None) \<and> \<not> (error r \<noteq> None \<and> distance r = None)) \<or>
         (\<not> is_match r \<and> \<not> (\<not> is_match r \<and> distance r \<noteq> None) \<and> (error r \<noteq> None \<and> distance r = None))"
      by (rule shaped_partition)
  qed
  have un: "filter (\<lambda>r. \<not> is_match r \<and> web_x r \<noteq> None) rs =
            filter (\<lambda>r. \<not> is_match r \<and> distance r \<noteq> None) rs"
  proof (rule filter_cong_set, rule ballI)
    fix r assume "r \<in> set rs"
    from shr[OF this] show "(\<not> is_match r \<and> web_x r \<noteq> None) = (\<not> is_match r \<and> distance r \<noteq> None)"
      by (rule shaped_unmatched)
  qed
  have mi: "filter (\<lambda>r. truthy_str (error r)) rs =
            filter (\<lambda>r. error r \<noteq> None \<and> distance r = None) rs"
  proof (rule filter_cong_set, rule ballI)
    fix r assume "r \<in> set rs"
    from shr[OF this] show "truthy_str (error r) = (error r \<noteq> None \<and> distance r = None)"
      by (rule shaped_missing)
  qed
  have di: "filter (\<lambda>r. \<not> is_match r \<and> truthy_num (distance r)) rs =
            filter (\<lambda>r. \<not> is_match r \<and> distance r \<noteq> None) rs" if tol: "fle (Fin 0) tolerance"
  proof (rule filter_cong_set, rule ballI)
    fix r assume "r \<in> set rs"
    from shr[OF this] tol show "(\<not> is_match r \<and> truthy_num (distance r)) = (\<not> is_match r \<and> distance r \<noteq> None)"
      by (rule shaped_discrepancy)
  qed
  have sm: "stat_matched rs = length (filter is_match rs)"
    by (simp add: stat_matched_def)
  have su: "stat_unmatched rs = length (filter (\<lambda>r. \<not> is_match r \<and> distance r \<noteq> None) rs)"
    unfolding stat_unmatched_def un ..
  have ss: "stat_missing rs = length (filter (\<lambda>r. error r \<noteq> None \<and> distance r = None) rs)"
    unfolding stat_missing_def mi ..
  have rt: "total_markers (generate_json_report (self\<lparr>results := rs\<rparr>)) = length rs"
    by (simp add: generate_json_report_def Let_def)
  have rm: "matched (generate_json_report (self\<lparr>results := rs\<rparr>)) = length (filter is_match rs)"
    by (simp add: generate_json_report_def Let_def)
  have rmi: "missing (generate_json_report (self\<lparr>results := rs\<rparr>)) =
               length (filter (\<lambda>r. error r \<noteq> None \<and> distance r = None) rs)"
    using mi by (simp add: generate_json_report_def Let_def)
  have rd: "fle (Fin 0) tolerance \<Longrightarrow>
            discrepancies (generate_json_report (self\<lparr>results := rs\<rparr>)) =
              length (filter (\<lambda>r. \<not> is_match r \<and> distance r \<noteq> None) rs)"
    using di by (simp add: generate_json_report_def Let_def)
  have rsum: "fle (Fin 0) tolerance \<Longrightarrow>
            matched (generate_json_report (self\<lparr>results := rs\<rparr>)) +
            discrepancies (generate_json_report (self\<lparr>results := rs\<rparr>)) +
            missing (generate_json_report (self\<lparr>results := rs\<rparr>)) =
            total_markers (generate_json_report (self\<lparr>results := rs\<rparr>))"
    unfolding rt rm rmi rd by (rule sum)
  show "let rep = generate_json_report (self\<lparr>results := rs\<rparr>);
           n_matched = length (filter is_match rs);
           n_discrepancies = length (filter (\<lambda>r. \<not> is_match r \<and> distance r \<noteq> None) rs);
           n_missing = length (filter (\<lambda>r. error r \<noteq> None \<and> distance r = None) rs)
       in length rs = length (considered self mname cf) \<and>
          (\<forall>r\<in>set rs.
             (is_match r \<and> distance r \<noteq> None \<and> error r = None) \<or>
             (\<not> is_match r \<and> distance r \<noteq> None \<and> error r = None) \<or>
             (\<not> is_match r \<and> distance r = None \<and> error r \<noteq> None)) \<and>
          n_matched + n_discrepancies + n_missing = length rs \<and>
          stat_matched rs = n_matched \<and> stat_unmatched rs = n_discrepancies \<and>
          stat_missing rs = n_missing \<and>
          total_markers rep = length rs \<and> matched rep = n_matched \<and> missing rep = n_missing \<and>
          (fle (Fin 0) tolerance \<longrightarrow>
             discrepancies rep = n_discrepancies \<and>
             matched rep + discrepancies rep + missing rep = total_markers rep)"
    unfolding Let_def
    by (intro conjI impI) (rule len cat sum sm su ss rt rm rmi | erule rd rsum)+
qed

text \<open>
  Claim C9, as amended.  The detail records of a report are those of the discrepancy
  results only, in order.  The HTML report receives the first 50 of them, so its detail
  list never has more than 50 entries; the JSON report lists all of them.
\<close>

theorem report_details_html_capped:
  "discrepancy_details (generate_json_report self) =
      map detail_of (filter (\<lambda>r. \<not> is_match r \<and> truthy_num (distance r)) (results self)) \<and>
   discrepancy_details (generate_html_report True self) =
      take 50 (map detail_of (filter (\<lambda>r. \<not> is_match r \<and> truthy_num (distance r)) (results self))) \<and>
   length (discrepancy_details (generate_html_report True self)) \<le> 50"
  by (simp add: generate_json_report_def generate_html_report_def Let_def group_loop_details)

subsection \<open>The examples, evaluated\<close>

lemma sqrt_100: "sqrt 100 = 10"
  by (rule real_sqrt_unique) simp_all

lemma sqrt_400: "sqrt 400 = 20"
  by (rule real_sqrt_unique) simp_all

lemma sqrt_25: "sqrt 25 = 5"
  by (rule real_sqrt_unique) simp_all

lemma sqrt_quarter: "sqrt (1/4) = 1/2"
  by (rule real_sqrt_unique) (simp_all add: power2_eq_square)

lemma sqrt_361_4: "sqrt (361/4) = 19/2"
  by (rule real_sqrt_unique) (simp_all add: power2_eq_square)

lemmas example_eval =
  compare_positions_def considered_def truthy_str_def compare_marker_def web_lookup_def
  new_result_def euclid_def exact_ops_def Let_def no_match_error_def
  scenario_def scenario_primary_def scenario_secondary_def same_place_def far_apart_def
  sqrt_100 sqrt_400 sqrt_25 sqrt_quarter sqrt_361_4

lemma scenario_considered: "considered scenario ''customs'' None = scenario_primary"
  by (simp add: considered_def scenario_def truthy_str_def)

lemma scenario_computable: "computable exact_ops scenario_primary scenario_secondary"
  by (simp add: computable_def euclid_def exact_ops_def scenario_primary_def
        scenario_secondary_def)

lemma scenario_results:
  "compare_positions exact_ops scenario ''customs'' (Fin 1) None =
     Inr ([\<lparr>marker_uid = ''A'', marker_name = ''A'', map_name = ''customs'',
             api_x = Fin 0, api_y = Fin 0, web_x = Some (Fin 0), web_y = Some (Fin 0),
             distance = Some (Fin 0), is_match = True, error = None, screenshot_path = None\<rparr>,
           \<lparr>marker_uid = ''B'', marker_name = ''B'', map_name = ''customs'',
             api_x = Fin 10, api_y = Fin 0, web_x = Some (Fin (21/2)), web_y = Some (Fin 0),
             distance = Some (Fin (1/2)), is_match = True, error = None,
             screenshot_path = None\<rparr>,
           \<lparr>marker_uid = ''C'', marker_name = ''C'', map_name = ''customs'',
             api_x = Fin 20, api_y = Fin 0, web_x = None, web_y = None,
             distance = None, is_match = False,
             error = Some ''No matching web marker found'', screenshot_path = None\<rparr>],
          scenario\<lparr>results :=
          [\<lparr>marker_uid = ''A'', marker_name = ''A'', map_name = ''customs'',
             api_x = Fin 0, api_y = Fin 0, web_x = Some (Fin 0), web_y = Some (Fin 0),
             distance = Some (Fin 0), is_match = True, error = None, screenshot_path = None\<rparr>,
           \<lparr>marker_uid = ''B'', marker_name = ''B'', map_name = ''customs'',
             api_x = Fin 10, api_y = Fin 0, web_x = Some (Fin (21/2)), web_y = Some (Fin 0),
             distance = Some (Fin (1/2)), is_match = True, error = None,
             screenshot_path = None\<rparr>,
           \<lparr>marker_uid = ''C'', marker_name = ''C'', map_name = ''customs'',
             api_x = Fin 20, api_y = Fin 0, web_x = None, web_y = None,
             distance = None, is_match = False,
             error = Some ''No matching web marker found'', screenshot_path = None\<rparr>]\<rparr>)"
  by (simp add: example_eval)

theorem empty_secondary_all_missing_witness:
  "\<exists>rs. compare_positions exact_ops (scenario\<lparr>web_markers := Map.empty\<rparr>) ''customs'' (Fin 1) None =
          Inr (rs, scenario\<lparr>web_markers := Map.empty, results := rs\<rparr>) \<and>
        length rs = 3 \<and>
        (\<forall>r\<in>set rs. web_x r = None \<and> web_y r = None \<and> distance r = None \<and>
                      \<not> is_match r \<and> error r = Some no_web_error \<and> truthy_str (error r)) \<and>
        stat_matched rs = 0"
proof -
  have h: "web_markers (scenario\<lparr>web_markers := Map.empty\<rparr>) ''customs'' = None \<or>
           web_markers (scenario\<lparr>web_markers := Map.empty\<rparr>) ''customs'' = Some []"
    by simp
  have c: "length (considered (scenario\<lparr>web_markers := Map.empty\<rparr>) ''customs'' None) = 3"
    by (simp add: considered_def scenario_def truthy_str_def scenario_primary_def)
  have r: "results (scenario\<lparr>web_markers := Map.empty\<rparr>) = []"
    by (simp add: scenario_def)
  from empty_secondary_all_missing[OF h, of exact_ops "Fin 1" None] show ?thesis
    unfolding c r by simp
qed





theorem summary_counts_partition_witness:
  "\<exists>rs self'. compare_positions exact_ops scenario ''customs'' (Fin 1) None = Inr (rs, self') \<and>
     (let rep = generate_json_report (scenario\<lparr>results := rs\<rparr>)
      in matched rep = 2 \<and> discrepancies rep = 0 \<and> missing rep = 1 \<and> total_markers rep = 3 \<and>
         matched rep + discrepancies rep + missing rep = total_markers rep)"
proof -
  note t = summary_counts_partition[of exact_ops scenario "''customs''" None "Fin 1"]
  have comp: "computable exact_ops (considered scenario ''customs'' None)
        (case web_markers scenario ''customs'' of None \<Rightarrow> [] | Some ms \<Rightarrow> ms)"
    unfolding scenario_considered using scenario_computable by (simp add: scenario_def)
  from t[THEN conjunct1, THEN mp, OF comp] obtain rs self' where
    ret: "compare_positions exact_ops scenario ''customs'' (Fin 1) None = Inr (rs, self')"
    by blast
  from ret have rs: "rs = [\<lparr>marker_uid = ''A'', marker_name = ''A'', map_name = ''customs'',
             api_x = Fin 0, api_y = Fin 0, web_x = Some (Fin 0), web_y = Some (Fin 0),
             distance = Some (Fin 0), is_match = True, error = None, screenshot_path = None\<rparr>,
           \<lparr>marker_uid = ''B'', marker_name = ''B'', map_name = ''customs'',
             api_x = Fin 10, api_y = Fin 0, web_x = Some (Fin (21/2)), web_y = Some (Fin 0),
             distance = Some (Fin (1/2)), is_match = True, error = None,
             screenshot_path = None\<rparr>,
           \<lparr>marker_uid = ''C'', marker_name = ''C'', map_name = ''customs'',
             api_x = Fin 20, api_y = Fin 0, web_x = None, web_y = None,
             distance = None, is_match = False,
             error = Some ''No matching web marker found'', screenshot_path = None\<rparr>]"
    unfolding scenario_results by simp
  have f: "fle (Fin 0) (Fin 1)" by simp
  from t[THEN conjunct2, rule_format, OF ret]
  have "let rep = generate_json_report (scenario\<lparr>results := rs\<rparr>)
      in matched rep = 2 \<and> discrepancies rep = 0 \<and> missing rep = 1 \<and> total_markers rep = 3 \<and>
         matched rep + discrepancies rep + missing rep = total_markers rep"
    using f unfolding Let_def by (simp add: rs)
  with ret show ?thesis by blast
qed

theorem report_details_html_capped_witness:
  "length (discrepancy_details (generate_html_report True far_verifier)) \<le> 50 \<and>
   length (discrepancy_details (generate_html_report True far_verifier)) = 50"
  using report_details_html_capped[of far_verifier]
  by (simp add: far_verifier_def far_result_def truthy_num_def)

text \<open>Against claim C9 as stated: with 51 discrepancy results the detail list of the
  JSON report has 51 entries, more than the cap of 50 the HTML report applies.\<close>

theorem json_details_uncapped_counterexample:
  "length (discrepancy_details (generate_json_report far_verifier)) = 51"
  by (simp add: generate_json_report_def Let_def group_loop_details far_verifier_def
        far_result_def truthy_num_def)


section \<open>Properties of the marker synchronisation\<close>

lemma sync_loop_count:
  "sync_loop ms mname now db c = Inr (db', n) \<Longrightarrow> n = c + length (filter has_geometry ms)"
proof (induction ms arbitrary: db c)
  case Nil
  then show ?case by simp
next
  case (Cons m ms)
  show ?case
  proof (cases "has_geometry m")
    case False
    with Cons show ?thesis by (simp add: has_geometry_def)
  next
    case True
    with Cons.prems obtain db1 where
      "store_marker m mname now db = Inr db1" "sync_loop ms mname now db1 (c + 1) = Inr (db', n)"
      by (auto simp: has_geometry_def split: sum.splits)
    from Cons.IH[OF this(2)] True show ?thesis by simp
  qed
qed

lemma sync_loop_filter:
  "sync_loop ms mname now db c = sync_loop (filter has_geometry ms) mname now db c"
  by (induction ms arbitrary: db c) (auto simp: has_geometry_def split: sum.splits)

lemma insert_images_loop_total:
  assumes "\<forall>img\<in>set imgs. img_img img \<noteq> None"
  shows "\<exists>db'. insert_images_loop (Some u) imgs idx db = Inr db'"
  using assms
proof (induction imgs arbitrary: idx db)
  case Nil
  then show ?case by simp
next
  case (Cons img imgs)
  then obtain url where "img_img img = Some url" by auto
  with Cons show ?case
    by (simp add: insert_marker_image_def Let_def)
qed

lemma sql_real_Some: "sql_real v = Some x \<longleftrightarrow> v = Some x \<and> x \<noteq> NaN"
  by (cases v) (auto simp: sql_real_def)

lemma insert_or_replace_marker_rejected:
  assumes "\<not> accepted v"
  shows "\<exists>e. insert_or_replace_marker v now db = Inl e"
proof (cases "case v_level v of None \<Rightarrow> False | Some n \<Rightarrow> \<not> int64 n")
  case True
  then show ?thesis by (simp add: insert_or_replace_marker_def)
next
  case False
  then have l: "(case v_level v of None \<Rightarrow> True | Some n \<Rightarrow> int64 n)"
    by (cases "v_level v") auto
  show ?thesis
  proof (cases "v_category v")
    case None
    then show ?thesis using False by (simp add: insert_or_replace_marker_def)
  next
    case c: (Some cat)
    show ?thesis
    proof (cases "v_name v")
      case None
      then show ?thesis using False c by (simp add: insert_or_replace_marker_def)
    next
      case n: (Some nm)
      show ?thesis
      proof (cases "sql_real (v_geometry_x v)")
        case None
        then show ?thesis using False c n by (simp add: insert_or_replace_marker_def)
      next
        case x: (Some gx)
        with assms l c n have "sql_real (v_geometry_y v) = None"
          by (simp add: accepted_def)
        then show ?thesis using False c n x by (simp add: insert_or_replace_marker_def)
      qed
    qed
  qed
qed

lemma marker_values_of_simps:
  "v_uid (marker_values_of m mname) = p_uid m"
  "v_map (marker_values_of m mname) = mname"
  "v_category (marker_values_of m mname) = p_category m"
  "v_name (marker_values_of m mname) = p_name m"
  "v_level (marker_values_of m mname) = p_level m"
  by (simp_all add: marker_values_of_def Let_def)

lemma marker_values_of_geometry:
  "v_geometry_x (marker_values_of m mname) =
     (case dict_get (or_empty (p_geometry m)) ''x'' of None \<Rightarrow> None | Some x \<Rightarrow> x)"
  "v_geometry_y (marker_values_of m mname) =
     (case dict_get (or_empty (p_geometry m)) ''y'' of None \<Rightarrow> None | Some y \<Rightarrow> y)"
  by (simp_all add: marker_values_of_def Let_def)

lemma insert_or_replace_marker_accepted:
  assumes "accepted (marker_values_of m mname)"
  shows "\<exists>row. (\<forall>now db. insert_or_replace_marker (marker_values_of m mname) now db =
            Inr (db\<lparr>markers :=
                   filter (\<lambda>r. p_uid m = None \<or> m_uid r \<noteq> p_uid m) (markers db) @
                   [row\<lparr>m_synced_at := now\<rparr>]\<rparr>)) \<and>
           (\<forall>now. stored_as m mname now (row\<lparr>m_synced_at := now\<rparr>)) \<and>
           \<not> m_is_verified row \<and> m_verification_distance row = None"
proof -
  let ?v = "marker_values_of m mname"
  from assms have c: "p_category m \<noteq> None" and n: "p_name m \<noteq> None"
    and x: "sql_real (v_geometry_x ?v) \<noteq> None" and y: "sql_real (v_geometry_y ?v) \<noteq> None"
    by (simp_all add: accepted_def marker_values_of_simps)
  from c obtain cat where cat: "p_category m = Some cat" by auto
  from n obtain nm where nm: "p_name m = Some nm" by auto
  from x obtain gx where gx: "v_geometry_x ?v = Some gx" "gx \<noteq> NaN"
    by (auto simp: sql_real_Some)
  from y obtain gy where gy: "v_geometry_y ?v = Some gy" "gy \<noteq> NaN"
    by (auto simp: sql_real_Some)
  from gx(1) have dx: "dict_get (or_empty (p_geometry m)) ''x'' = Some (Some gx)"
    by (auto simp: marker_values_of_geometry split: option.splits)
  from gy(1) have dy: "dict_get (or_empty (p_geometry m)) ''y'' = Some (Some gy)"
    by (auto simp: marker_values_of_geometry split: option.splits)
  from gx have sx: "sql_real (v_geometry_x ?v) = Some gx" by (simp add: sql_real_Some)
  from gy have sy: "sql_real (v_geometry_y ?v) = Some gy" by (simp add: sql_real_Some)
  from assms have l: "\<not> (case p_level m of None \<Rightarrow> False | Some n \<Rightarrow> \<not> int64 n)"
    by (cases "p_level m") (auto simp: accepted_def marker_values_of_simps)
  let ?row = "\<lparr>m_uid = p_uid m, m_map = mname, m_category = cat,
            m_sub_category = v_sub_category ?v, m_name = nm,
            m_name_ko = v_name_ko ?v, m_name_ru = v_name_ru ?v,
            m_description = v_description ?v, m_description_ko = v_description_ko ?v,
            m_geometry_x = gx, m_geometry_y = gy, m_level = p_level m,
            m_quest_uid = v_quest_uid ?v, m_items_uid = v_items_uid ?v,
            m_images = v_images ?v, m_updated_at = v_updated_at ?v,
            m_synced_at = 0, m_is_verified = False,
            m_verification_distance = None\<rparr>"
  have a: "\<forall>now db. insert_or_replace_marker ?v now db =
            Inr (db\<lparr>markers :=
                   filter (\<lambda>r. p_uid m = None \<or> m_uid r \<noteq> p_uid m) (markers db) @
                   [?row\<lparr>m_synced_at := now\<rparr>]\<rparr>)"
    using l by (simp add: insert_or_replace_marker_def marker_values_of_simps cat nm sx sy)
  have b: "\<forall>now. stored_as m mname now (?row\<lparr>m_synced_at := now\<rparr>)"
    by (simp add: stored_as_def cat nm dx dy marker_values_of_def Let_def)
  have "(\<forall>now db. insert_or_replace_marker ?v now db =
            Inr (db\<lparr>markers :=
                   filter (\<lambda>r. p_uid m = None \<or> m_uid r \<noteq> p_uid m) (markers db) @
                   [?row\<lparr>m_synced_at := now\<rparr>]\<rparr>)) \<and>
           (\<forall>now. stored_as m mname now (?row\<lparr>m_synced_at := now\<rparr>)) \<and>
           \<not> m_is_verified ?row \<and> m_verification_distance ?row = None"
    using a b by simp
  then show ?thesis by (rule exI)
qed

lemma insert_or_replace_marker_Inr_accepted:
  "insert_or_replace_marker v now db = Inr db1 \<Longrightarrow> accepted v"
  using insert_or_replace_marker_rejected[of v now db] by auto

lemma storable_accepted:
  assumes "storable m"
  shows "accepted (marker_values_of m mname)"
proof -
  from assms have c: "p_category m \<noteq> None" and n: "p_name m \<noteq> None"
    and l: "(case p_level m of None \<Rightarrow> True | Some n \<Rightarrow> int64 n)"
    and x: "dict_get (or_empty (p_geometry m)) ''x'' \<notin> {None, Some None, Some (Some NaN)}"
    and y: "dict_get (or_empty (p_geometry m)) ''y'' \<notin> {None, Some None, Some (Some NaN)}"
    by (simp_all add: storable_def)
  from x obtain gx where gx: "dict_get (or_empty (p_geometry m)) ''x'' = Some (Some gx)" "gx \<noteq> NaN"
    by (cases "dict_get (or_empty (p_geometry m)) ''x''") auto
  from y obtain gy where gy: "dict_get (or_empty (p_geometry m)) ''y'' = Some (Some gy)" "gy \<noteq> NaN"
    by (cases "dict_get (or_empty (p_geometry m)) ''y''") auto
  show ?thesis
    using c n l by (simp add: accepted_def marker_values_of_def Let_def gx gy sql_real_def)
qed

lemma insert_or_replace_marker_total:
  assumes "storable m"
  shows "\<exists>db1. insert_or_replace_marker (marker_values_of m mname) now db = Inr db1"
  using insert_or_replace_marker_accepted[OF storable_accepted[OF assms, of mname]] by blast

lemma store_marker_total:
  assumes "has_geometry m" "storable m"
  shows "\<exists>db'. store_marker m mname now db = Inr db'"
proof -
  from insert_or_replace_marker_total[OF assms(2)] obtain db1 where
    db1: "insert_or_replace_marker (marker_values_of m mname) now db = Inr db1" ..
  show ?thesis
  proof (cases "truthy_list (p_imgs m)")
    case False
    then show ?thesis by (simp add: store_marker_def db1)
  next
    case True
    with assms(2) obtain u where u: "p_uid m = Some u"
      and imgs: "\<forall>img\<in>set (or_empty (p_imgs m)). img_img img \<noteq> None"
      by (auto simp: storable_def)
    from insert_images_loop_total[OF imgs] show ?thesis
      by (simp add: store_marker_def db1 True u)
  qed
qed

lemma sync_loop_total:
  assumes "\<forall>m\<in>set ms. has_geometry m \<longrightarrow> storable m"
  shows "\<exists>db'. sync_loop ms mname now db c = Inr (db', c + length (filter has_geometry ms))"
  using assms
proof (induction ms arbitrary: db c)
  case Nil
  then show ?case by simp
next
  case (Cons m ms)
  show ?case
  proof (cases "has_geometry m")
    case False
    with Cons show ?thesis by (simp add: has_geometry_def)
  next
    case True
    with Cons.prems have "storable m" by simp
    from store_marker_total[OF True this] obtain db1 where
      s: "store_marker m mname now db = Inr db1" by blast
    from Cons.prems have "\<forall>m\<in>set ms. has_geometry m \<longrightarrow> storable m" by simp
    from Cons.IH[OF this, of db1 "c + 1"] True s show ?thesis
      by (auto simp: has_geometry_def)
  qed
qed


lemma sync_markers_single:
  "sync_markers [m] mname now db =
     (if \<not> has_geometry m then Inr (db, 0)
      else case store_marker m mname now db of Inl e \<Rightarrow> Inl e | Inr db' \<Rightarrow> Inr (db', 1))"
  by (simp add: sync_markers_def has_geometry_def split: sum.splits)

lemma insert_images_loop_markers:
  "insert_images_loop u imgs idx db = Inr db' \<Longrightarrow> markers db' = markers db"
proof (induction imgs arbitrary: idx db)
  case Nil
  then show ?case by simp
next
  case (Cons img imgs)
  from Cons.prems obtain db1 where
    a: "insert_marker_image u img idx db = Inr db1"
    and b: "insert_images_loop u imgs (Suc idx) db1 = Inr db'"
    by (auto split: sum.splits)
  from a have "markers db1 = markers db"
    by (auto simp: insert_marker_image_def Let_def split: option.splits)
  with Cons.IH[OF b] show ?case by simp
qed

lemma insert_or_replace_marker_row:
  assumes "insert_or_replace_marker (marker_values_of m mname) now db = Inr db1"
  shows "\<exists>row. db1 = db\<lparr>markers := filter (\<lambda>r. p_uid m = None \<or> m_uid r \<noteq> p_uid m) (markers db) @ [row]\<rparr> \<and>
           stored_as m mname now row \<and> \<not> m_is_verified row \<and> m_verification_distance row = None"
proof -
  from insert_or_replace_marker_accepted[OF insert_or_replace_marker_Inr_accepted[OF assms]]
  obtain row where
    a: "\<forall>now db. insert_or_replace_marker (marker_values_of m mname) now db =
            Inr (db\<lparr>markers :=
                   filter (\<lambda>r. p_uid m = None \<or> m_uid r \<noteq> p_uid m) (markers db) @
                   [row\<lparr>m_synced_at := now\<rparr>]\<rparr>)"
    and b: "\<forall>now. stored_as m mname now (row\<lparr>m_synced_at := now\<rparr>)"
    and c: "\<not> m_is_verified row" "m_verification_distance row = None"
    by blast
  from assms a have "db1 = db\<lparr>markers :=
      filter (\<lambda>r. p_uid m = None \<or> m_uid r \<noteq> p_uid m) (markers db) @ [row\<lparr>m_synced_at := now\<rparr>]\<rparr>"
    by simp
  with b c show ?thesis
    by (intro exI[of _ "row\<lparr>m_synced_at := now\<rparr>"]) simp
qed

lemma store_marker_markers:
  assumes "store_marker m mname now db = Inr db'"
  shows "\<exists>row. markers db' = filter (\<lambda>r. p_uid m = None \<or> m_uid r \<noteq> p_uid m) (markers db) @ [row] \<and>
           stored_as m mname now row \<and> \<not> m_is_verified row \<and> m_verification_distance row = None"
proof -
  from assms obtain db1 where
    ins: "insert_or_replace_marker (marker_values_of m mname) now db = Inr db1"
    by (auto simp: store_marker_def split: sum.splits)
  from insert_or_replace_marker_row[OF ins] obtain row where
    row: "db1 = db\<lparr>markers := filter (\<lambda>r. p_uid m = None \<or> m_uid r \<noteq> p_uid m) (markers db) @ [row]\<rparr>"
      "stored_as m mname now row" "\<not> m_is_verified row" "m_verification_distance row = None"
    by blast
  have "markers db' = markers db1"
  proof (cases "truthy_list (p_imgs m)")
    case False
    with assms ins show ?thesis by (simp add: store_marker_def)
  next
    case True
    with assms ins have
      "insert_images_loop (p_uid m) (or_empty (p_imgs m)) 0 (delete_marker_images (p_uid m) db1) = Inr db'"
      by (simp add: store_marker_def)
    from insert_images_loop_markers[OF this] show ?thesis
      by (simp add: delete_marker_images_def)
  qed
  with row show ?thesis by auto
qed

lemma insert_marker_image_row:
  assumes "insert_marker_image u img idx db = Inr db'"
  shows "\<exists>uid url row. u = Some uid \<and> img_img img = Some url \<and>
           marker_images db' = marker_images db @ [row] \<and> i_marker_uid row = uid \<and>
           strip_id row = \<lparr>i_id = 0, i_marker_uid = uid, i_image_url = url,
                            i_image_name = img_name img, i_image_description = img_desc img,
                            i_display_order = idx\<rparr>"
  using assms
  by (auto simp: insert_marker_image_def Let_def strip_id_def split: option.splits)

lemma insert_images_loop_rows:
  assumes "insert_images_loop u imgs idx dbA = Inr dbA'"
      and "insert_images_loop u imgs idx dbB = Inr dbB'"
  shows "\<exists>rowsA rowsB.
           marker_images dbA' = marker_images dbA @ rowsA \<and>
           marker_images dbB' = marker_images dbB @ rowsB \<and>
           map strip_id rowsA = map strip_id rowsB \<and>
           (\<forall>r\<in>set rowsA. Some (i_marker_uid r) = u) \<and>
           (\<forall>r\<in>set rowsB. Some (i_marker_uid r) = u)"
  using assms
proof (induction imgs arbitrary: idx dbA dbB)
  case Nil
  then show ?case by simp
next
  case (Cons img imgs)
  from Cons.prems(1) obtain dbA1 where
    a1: "insert_marker_image u img idx dbA = Inr dbA1"
    and a2: "insert_images_loop u imgs (Suc idx) dbA1 = Inr dbA'"
    by (auto split: sum.splits)
  from Cons.prems(2) obtain dbB1 where
    b1: "insert_marker_image u img idx dbB = Inr dbB1"
    and b2: "insert_images_loop u imgs (Suc idx) dbB1 = Inr dbB'"
    by (auto split: sum.splits)
  from insert_marker_image_row[OF a1] obtain rowA where
    ra: "marker_images dbA1 = marker_images dbA @ [rowA]" "Some (i_marker_uid rowA) = u"
        "strip_id rowA = \<lparr>i_id = 0, i_marker_uid = i_marker_uid rowA, i_image_url = the (img_img img),
                            i_image_name = img_name img, i_image_description = img_desc img,
                            i_display_order = idx\<rparr>"
    by auto
  from insert_marker_image_row[OF b1] obtain rowB where
    rb: "marker_images dbB1 = marker_images dbB @ [rowB]" "Some (i_marker_uid rowB) = u"
        "strip_id rowB = \<lparr>i_id = 0, i_marker_uid = i_marker_uid rowB, i_image_url = the (img_img img),
                            i_image_name = img_name img, i_image_description = img_desc img,
                            i_display_order = idx\<rparr>"
    by auto
  from ra(2) rb(2) have same_uid: "i_marker_uid rowA = i_marker_uid rowB"
    by (metis option.inject)
  from Cons.IH[OF a2 b2] obtain rowsA rowsB where
    ih: "marker_images dbA' = marker_images dbA1 @ rowsA"
        "marker_images dbB' = marker_images dbB1 @ rowsB"
        "map strip_id rowsA = map strip_id rowsB"
        "\<forall>r\<in>set rowsA. Some (i_marker_uid r) = u"
        "\<forall>r\<in>set rowsB. Some (i_marker_uid r) = u"
    by blast
  have "marker_images dbA' = marker_images dbA @ (rowA # rowsA)"
    using ih(1) ra(1) by simp
  moreover have "marker_images dbB' = marker_images dbB @ (rowB # rowsB)"
    using ih(2) rb(1) by simp
  moreover have "map strip_id (rowA # rowsA) = map strip_id (rowB # rowsB)"
    using ih(3) ra(3) rb(3) same_uid by simp
  moreover have "\<forall>r\<in>set (rowA # rowsA). Some (i_marker_uid r) = u"
    using ih(4) ra(2) by simp
  moreover have "\<forall>r\<in>set (rowB # rowsB). Some (i_marker_uid r) = u"
    using ih(5) rb(2) by simp
  ultimately show ?case by blast
qed

lemma insert_images_loop_urls:
  "insert_images_loop u imgs idx db = Inr db' \<Longrightarrow>
     (imgs \<noteq> [] \<longrightarrow> u \<noteq> None) \<and> (\<forall>img\<in>set imgs. img_img img \<noteq> None)"
proof (induction imgs arbitrary: idx db)
  case Nil
  then show ?case by simp
next
  case (Cons img imgs)
  from Cons.prems obtain db1 where
    a: "insert_marker_image u img idx db = Inr db1"
    and b: "insert_images_loop u imgs (Suc idx) db1 = Inr db'"
    by (auto split: sum.splits)
  from insert_marker_image_row[OF a] Cons.IH[OF b] show ?case by auto
qed

lemma store_marker_repeat:
  assumes "store_marker m mname t1 db = Inr db1"
  shows "\<exists>db2. store_marker m mname t2 dbX = Inr db2"
proof -
  from assms obtain dbi where
    ins: "insert_or_replace_marker (marker_values_of m mname) t1 db = Inr dbi"
    by (auto simp: store_marker_def split: sum.splits)
  from insert_or_replace_marker_accepted[OF insert_or_replace_marker_Inr_accepted[OF ins]]
  obtain dbj where
    ins2: "insert_or_replace_marker (marker_values_of m mname) t2 dbX = Inr dbj"
    by blast
  show ?thesis
  proof (cases "truthy_list (p_imgs m)")
    case False
    then show ?thesis by (simp add: store_marker_def ins2)
  next
    case True
    with assms ins have
      l: "insert_images_loop (p_uid m) (or_empty (p_imgs m)) 0 (delete_marker_images (p_uid m) dbi) = Inr db1"
      by (simp add: store_marker_def)
    from True have ne: "or_empty (p_imgs m) \<noteq> []"
      by (auto simp: truthy_list_def or_empty_def split: option.splits)
    from insert_images_loop_urls[OF l] ne obtain u where
      u: "p_uid m = Some u" and urls: "\<forall>img\<in>set (or_empty (p_imgs m)). img_img img \<noteq> None"
      by auto
    from insert_images_loop_total[OF urls, of u 0 "delete_marker_images (p_uid m) dbj"]
    show ?thesis by (simp add: store_marker_def ins2 True u)
  qed
qed

lemma store_marker_images_again:
  assumes "store_marker m mname t1 db = Inr db1"
      and "store_marker m mname t2 db1 = Inr db2"
  shows "map strip_id (marker_images db2) = map strip_id (marker_images db1)"
proof -
  from assms(1) obtain dbi where
    ins: "insert_or_replace_marker (marker_values_of m mname) t1 db = Inr dbi"
    by (auto simp: store_marker_def split: sum.splits)
  from assms(2) obtain dbj where
    ins2: "insert_or_replace_marker (marker_values_of m mname) t2 db1 = Inr dbj"
    by (auto simp: store_marker_def split: sum.splits)
  from insert_or_replace_marker_row[OF ins] have i1: "marker_images dbi = marker_images db"
    by auto
  from insert_or_replace_marker_row[OF ins2] have i2: "marker_images dbj = marker_images db1"
    by auto
  show ?thesis
  proof (cases "truthy_list (p_imgs m)")
    case False
    with assms ins ins2 have "db1 = dbi" "db2 = dbj" by (simp_all add: store_marker_def)
    with i2 show ?thesis by simp
  next
    case True
    with assms(1) ins have
      l1: "insert_images_loop (p_uid m) (or_empty (p_imgs m)) 0 (delete_marker_images (p_uid m) dbi) = Inr db1"
      by (simp add: store_marker_def)
    from True assms(2) ins2 have
      l2: "insert_images_loop (p_uid m) (or_empty (p_imgs m)) 0 (delete_marker_images (p_uid m) dbj) = Inr db2"
      by (simp add: store_marker_def)
    from insert_images_loop_rows[OF l1 l2] obtain rowsA rowsB where
      r: "marker_images db1 = marker_images (delete_marker_images (p_uid m) dbi) @ rowsA"
         "marker_images db2 = marker_images (delete_marker_images (p_uid m) dbj) @ rowsB"
         "map strip_id rowsA = map strip_id rowsB"
         "\<forall>r\<in>set rowsA. Some (i_marker_uid r) = p_uid m"
      by blast
    have d1: "marker_images (delete_marker_images (p_uid m) dbi) =
                filter (\<lambda>r. Some (i_marker_uid r) \<noteq> p_uid m) (marker_images db)"
      by (simp add: delete_marker_images_def i1)
    have "filter (\<lambda>r. Some (i_marker_uid r) \<noteq> p_uid m) rowsA = []"
      using r(4) by (simp add: filter_empty_conv)
    then have d2: "marker_images (delete_marker_images (p_uid m) dbj) =
                filter (\<lambda>r. Some (i_marker_uid r) \<noteq> p_uid m) (marker_images db)"
      by (simp add: delete_marker_images_def i2 r(1) d1 i1)
    show ?thesis
      unfolding r(1) r(2) d1 d2 using r(3) by simp
  qed
qed

lemma stored_as_resync:
  assumes "stored_as m mname t1 row1" "stored_as m mname t2 row2"
      and "m_is_verified row1 = m_is_verified row2"
      and "m_verification_distance row1 = m_verification_distance row2"
  shows "row2 = row1\<lparr>m_synced_at := t2\<rparr>"
  using assms
  by (intro marker_row.equality) (simp_all add: stored_as_def, (metis option.inject)+)

text \<open>
  Claim C4, as amended.  For a payload that carries a uid and that \<open>sync_markers\<close> stores
  (the call on it alone returns the count 1), and every database: a second sync of the same
  payload succeeds with count 1; after each sync exactly one row has that uid, and its
  source-derived columns hold the payload's values; the second sync changes nothing in
  table \<open>markers\<close> except \<open>synced_at\<close> of that row, which is the clock reading of the
  second call and so not before the first when the clock has not gone back; and the rows
  of \<open>marker_images\<close> are the same up to their ids.
\<close>

theorem upsert_twice_one_row:
  assumes "p_uid m = Some u"
      and "sync_markers [m] mname t1 db = Inr (db1, 1)"
  shows "\<exists>db2 row1 row2.
           sync_markers [m] mname t2 db1 = Inr (db2, 1) \<and>
           filter (\<lambda>r. m_uid r = Some u) (markers db1) = [row1] \<and> stored_as m mname t1 row1 \<and>
           filter (\<lambda>r. m_uid r = Some u) (markers db2) = [row2] \<and> stored_as m mname t2 row2 \<and>
           row2 = row1\<lparr>m_synced_at := t2\<rparr> \<and>
           markers db2 =
             map (\<lambda>r. if m_uid r = Some u then r\<lparr>m_synced_at := t2\<rparr> else r) (markers db1) \<and>
           map strip_id (marker_images db2) = map strip_id (marker_images db1) \<and>
           (t1 \<le> t2 \<longrightarrow> m_synced_at row1 \<le> m_synced_at row2)"
proof -
  from assms(2) have geo: "has_geometry m"
    by (auto simp: sync_markers_single split: if_splits)
  with assms(2) have s1: "store_marker m mname t1 db = Inr db1"
    by (auto simp: sync_markers_single split: sum.splits)
  from store_marker_repeat[OF s1, of t2 db1] obtain db2 where
    s2: "store_marker m mname t2 db1 = Inr db2" by blast
  let ?keep = "\<lambda>r. p_uid m = None \<or> m_uid r \<noteq> p_uid m"
  from store_marker_markers[OF s1] obtain row1 where
    r1: "markers db1 = filter ?keep (markers db) @ [row1]" "stored_as m mname t1 row1"
        "\<not> m_is_verified row1" "m_verification_distance row1 = None"
    by blast
  from store_marker_markers[OF s2] obtain row2 where
    r2: "markers db2 = filter ?keep (markers db1) @ [row2]" "stored_as m mname t2 row2"
        "\<not> m_is_verified row2" "m_verification_distance row2 = None"
    by blast
  have u1: "m_uid row1 = Some u" using r1(2) assms(1) by (simp add: stored_as_def)
  have u2: "m_uid row2 = Some u" using r2(2) assms(1) by (simp add: stored_as_def)
  have keep: "?keep = (\<lambda>r. m_uid r \<noteq> Some u)"
    using assms(1) by simp
  have m1: "markers db1 = filter (\<lambda>r. m_uid r \<noteq> Some u) (markers db) @ [row1]"
    using r1(1) unfolding keep .
  have m2: "markers db2 = filter (\<lambda>r. m_uid r \<noteq> Some u) (markers db) @ [row2]"
    using r2(1) unfolding keep m1 by (simp add: u1)
  have eq: "row2 = row1\<lparr>m_synced_at := t2\<rparr>"
    by (rule stored_as_resync[OF r1(2) r2(2)]) (simp_all add: r1 r2)
  have f1: "filter (\<lambda>r. m_uid r = Some u) (markers db1) = [row1]"
    unfolding m1 by (simp add: u1)
  have f2: "filter (\<lambda>r. m_uid r = Some u) (markers db2) = [row2]"
    unfolding m2 by (simp add: u2)
  have mp: "markers db2 =
             map (\<lambda>r. if m_uid r = Some u then r\<lparr>m_synced_at := t2\<rparr> else r) (markers db1)"
  proof -
    have "map (\<lambda>r. if m_uid r = Some u then r\<lparr>m_synced_at := t2\<rparr> else r)
            (filter (\<lambda>r. m_uid r \<noteq> Some u) (markers db)) =
          filter (\<lambda>r. m_uid r \<noteq> Some u) (markers db)"
      by (rule map_idI) simp
    then show ?thesis unfolding m1 m2 by (simp add: u1 eq)
  qed
  have im: "map strip_id (marker_images db2) = map strip_id (marker_images db1)"
    by (rule store_marker_images_again[OF s1 s2])
  have sy: "t1 \<le> t2 \<longrightarrow> m_synced_at row1 \<le> m_synced_at row2"
    using r1(2) r2(2) by (simp add: stored_as_def)
  have sm: "sync_markers [m] mname t2 db1 = Inr (db2, 1)"
    using geo s2 by (simp add: sync_markers_single)
  from sm f1 r1(2) f2 r2(2) eq mp im sy show ?thesis by blast
qed

lemmas sync_eval =
  sync_markers_def store_marker_def insert_or_replace_marker_def marker_values_of_def
  delete_marker_images_def insert_marker_image_def or_empty_def truthy_list_def dict_get_def
  sql_real_def int64_def Let_def

text \<open>
  Claim C1 fails on the code.  A marker stored with \<open>is_verified\<close> true and a verification
  distance is synced again with the same uid: \<open>INSERT OR REPLACE\<close> replaces the whole
  row, and the new row has \<open>is_verified\<close> false and no verification distance.
\<close>

theorem resync_resets_verification:
  "m_is_verified stash_row \<and> m_verification_distance stash_row = Some (Fin (3/2)) \<and>
   markers verified_db = [stash_row] \<and> p_uid stash_payload = m_uid stash_row \<and>
   sync_markers [stash_payload] ''woods'' 2 verified_db =
     Inr (\<lparr>markers = [stash_row\<lparr>m_synced_at := 2, m_is_verified := False,
                                 m_verification_distance := None\<rparr>],
           marker_images = [stash_image_row\<lparr>i_id := 2\<rparr>], image_seq = 2\<rparr>, 1)"
  by (simp add: sync_eval stash_payload_def stash_row_def verified_db_def stash_image_row_def
        stash_image_def)

text \<open>
  Claim C6 fails on the code.  A marker with one stored image row is synced again with an
  empty image list: the \<open>images\<close> column of its row becomes \<open>NULL\<close>, but the guard
  \<open>if marker.get("imgs")\<close> is false for the empty list, so the row of
  \<open>marker_images\<close> is not deleted.
\<close>

theorem empty_image_list_keeps_images:
  "marker_images verified_db = [stash_image_row] \<and>
   Some (i_marker_uid stash_image_row) = p_uid stash_payload \<and>
   sync_markers [stash_payload\<lparr>p_imgs := Some []\<rparr>] ''woods'' 2 verified_db =
     Inr (\<lparr>markers = [stash_row\<lparr>m_images := None, m_synced_at := 2, m_is_verified := False,
                                 m_verification_distance := None\<rparr>],
           marker_images = [stash_image_row], image_seq = 1\<rparr>, 1)"
  by (simp add: sync_eval stash_payload_def stash_row_def verified_db_def stash_image_row_def
        stash_image_def)

text \<open>Against claim C4 as stated: a payload without geometry, synced twice, leaves
  no row with its uid; and for a payload with an image the second sync does change more
  than \<open>synced_at\<close>, the image row is deleted and inserted again under a new id.\<close>

theorem upsert_twice_counterexample:
  "sync_markers [stash_payload\<lparr>p_geometry := None\<rparr>] ''woods'' 1 empty_db = Inr (empty_db, 0) \<and>
   sync_markers [stash_payload\<lparr>p_geometry := None\<rparr>] ''woods'' 2 empty_db = Inr (empty_db, 0) \<and>
   filter (\<lambda>r. m_uid r = p_uid stash_payload) (markers empty_db) = [] \<and>
   sync_markers [stash_payload] ''woods'' 1 empty_db =
     Inr (\<lparr>markers = [stash_row\<lparr>m_is_verified := False, m_verification_distance := None\<rparr>],
           marker_images = [stash_image_row], image_seq = 1\<rparr>, 1) \<and>
   sync_markers [stash_payload] ''woods'' 2
       \<lparr>markers = [stash_row\<lparr>m_is_verified := False, m_verification_distance := None\<rparr>],
        marker_images = [stash_image_row], image_seq = 1\<rparr> =
     Inr (\<lparr>markers = [stash_row\<lparr>m_synced_at := 2, m_is_verified := False,
                                 m_verification_distance := None\<rparr>],
           marker_images = [stash_image_row\<lparr>i_id := 2\<rparr>], image_seq = 2\<rparr>, 1) \<and>
   stash_image_row\<lparr>i_id := 2\<rparr> \<noteq> stash_image_row"
  by (simp add: sync_eval stash_payload_def stash_row_def empty_db_def stash_image_row_def
        stash_image_def)

theorem upsert_twice_one_row_witness:
  "\<exists>db2 row1 row2.
     sync_markers [stash_payload] ''woods'' 2
       \<lparr>markers = [stash_row\<lparr>m_is_verified := False, m_verification_distance := None\<rparr>],
        marker_images = [stash_image_row], image_seq = 1\<rparr> = Inr (db2, 1) \<and>
     filter (\<lambda>r. m_uid r = Some ''m1'')
       (markers \<lparr>markers = [stash_row\<lparr>m_is_verified := False, m_verification_distance := None\<rparr>],
        marker_images = [stash_image_row], image_seq = 1\<rparr>) = [row1] \<and>
     stored_as stash_payload ''woods'' 1 row1 \<and>
     filter (\<lambda>r. m_uid r = Some ''m1'') (markers db2) = [row2] \<and>
     stored_as stash_payload ''woods'' 2 row2 \<and>
     row2 = row1\<lparr>m_synced_at := 2\<rparr> \<and>
     markers db2 =
       map (\<lambda>r. if m_uid r = Some ''m1'' then r\<lparr>m_synced_at := 2\<rparr> else r)
         (markers \<lparr>markers = [stash_row\<lparr>m_is_verified := False, m_verification_distance := None\<rparr>],
           marker_images = [stash_image_row], image_seq = 1\<rparr>) \<and>
     map strip_id (marker_images db2) =
       map strip_id (marker_images
         \<lparr>markers = [stash_row\<lparr>m_is_verified := False, m_verification_distance := None\<rparr>],
          marker_images = [stash_image_row], image_seq = 1\<rparr>) \<and>
     ((1::nat) \<le> 2 \<longrightarrow> m_synced_at row1 \<le> m_synced_at row2)"
proof -
  have h1: "p_uid stash_payload = Some ''m1''"
    by (simp add: stash_payload_def)
  have h2: "sync_markers [stash_payload] ''woods'' 1 empty_db =
     Inr (\<lparr>markers = [stash_row\<lparr>m_is_verified := False, m_verification_distance := None\<rparr>],
           marker_images = [stash_image_row], image_seq = 1\<rparr>, 1)"
    by (simp add: sync_eval stash_payload_def stash_row_def empty_db_def stash_image_row_def
        stash_image_def)
  show ?thesis
    by (rule upsert_twice_one_row[OF h1 h2, of 2])
qed


lemma survivors_distinct: "distinct (map p_uid ms) \<Longrightarrow> survivors ms = ms"
  by (induction ms) auto

lemma sync_loop_markers:
  assumes "sync_loop ms mname now db c = Inr (db', n)"
  shows "\<exists>new. markers db' =
            filter (\<lambda>r. m_uid r = None \<or> m_uid r \<notin> p_uid ` set (filter has_geometry ms))
              (markers db) @ new \<and>
          list_all2 (fresh_row mname now) (survivors (filter has_geometry ms)) new"
  using assms
proof (induction ms arbitrary: db c)
  case Nil
  then show ?case by simp
next
  case (Cons m ms)
  show ?case
  proof (cases "has_geometry m")
    case False
    with Cons.prems have "sync_loop ms mname now db c = Inr (db', n)"
      by (simp add: has_geometry_def)
    from Cons.IH[OF this] False show ?thesis by simp
  next
    case True
    with Cons.prems obtain db1 where
      s: "store_marker m mname now db = Inr db1"
      and l: "sync_loop ms mname now db1 (c + 1) = Inr (db', n)"
      by (auto simp: has_geometry_def split: sum.splits)
    let ?U = "p_uid ` set (filter has_geometry ms)"
    from store_marker_markers[OF s] obtain row where
      row: "markers db1 = filter (\<lambda>r. p_uid m = None \<or> m_uid r \<noteq> p_uid m) (markers db) @ [row]"
           "fresh_row mname now m row"
      by (auto simp: fresh_row_def)
    from Cons.IH[OF l] obtain new where
      new: "markers db' = filter (\<lambda>r. m_uid r = None \<or> m_uid r \<notin> ?U) (markers db1) @ new"
           "list_all2 (fresh_row mname now) (survivors (filter has_geometry ms)) new"
      by blast
    have ru: "m_uid row = p_uid m"
      using row(2) by (simp add: fresh_row_def stored_as_def)
    have f: "filter (\<lambda>r. m_uid r = None \<or> m_uid r \<notin> ?U)
               (filter (\<lambda>r. p_uid m = None \<or> m_uid r \<noteq> p_uid m) (markers db)) =
             filter (\<lambda>r. m_uid r = None \<or> m_uid r \<notin> insert (p_uid m) ?U) (markers db)"
      unfolding filter_filter by (rule filter_cong) auto
    show ?thesis
    proof (cases "p_uid m \<noteq> None \<and> p_uid m \<in> ?U")
      case replaced: True
      then have "filter (\<lambda>r. m_uid r = None \<or> m_uid r \<notin> ?U) [row] = []"
        using ru by simp
      with new row(1) f have
        "markers db' = filter (\<lambda>r. m_uid r = None \<or> m_uid r \<notin> insert (p_uid m) ?U) (markers db) @ new"
        by simp
      with new(2) replaced True show ?thesis by simp
    next
      case kept: False
      then have "filter (\<lambda>r. m_uid r = None \<or> m_uid r \<notin> ?U) [row] = [row]"
        using ru by auto
      with new row(1) f have
        "markers db' = filter (\<lambda>r. m_uid r = None \<or> m_uid r \<notin> insert (p_uid m) ?U) (markers db) @
                         (row # new)"
        by simp
      moreover have "list_all2 (fresh_row mname now) (survivors (filter has_geometry (m # ms))) (row # new)"
        using kept True new(2) row(2) by auto
      ultimately show ?thesis using True by (intro exI[of _ "row # new"]) simp
    qed
  qed
qed

lemma strip_id_uid [simp]: "i_marker_uid (strip_id r) = i_marker_uid r"
  by (simp add: strip_id_def)

lemma filter_map_strip:
  "filter (\<lambda>r. P (i_marker_uid r)) (map strip_id xs) =
   map strip_id (filter (\<lambda>r. P (i_marker_uid r)) xs)"
  by (induction xs) simp_all

lemma image_rows_uid: "r \<in> set (image_rows u imgs idx) \<Longrightarrow> i_marker_uid r = u"
  by (induction imgs arbitrary: idx) (auto split: option.splits)

lemma insert_images_loop_stripped:
  assumes "insert_images_loop (Some u) imgs idx db = Inr db'"
  shows "map strip_id (marker_images db') =
           map strip_id (marker_images db) @ image_rows u imgs idx"
  using assms
proof (induction imgs arbitrary: idx db)
  case Nil
  then show ?case by simp
next
  case (Cons img imgs)
  from Cons.prems obtain db1 where
    a: "insert_marker_image (Some u) img idx db = Inr db1"
    and b: "insert_images_loop (Some u) imgs (Suc idx) db1 = Inr db'"
    by (auto split: sum.splits)
  from insert_marker_image_row[OF a] obtain url row where
    r: "img_img img = Some url" "marker_images db1 = marker_images db @ [row]"
       "strip_id row = \<lparr>i_id = 0, i_marker_uid = u, i_image_url = url,
                          i_image_name = img_name img, i_image_description = img_desc img,
                          i_display_order = idx\<rparr>"
    by auto
  from Cons.IH[OF b] r show ?case by simp
qed

lemma store_marker_images:
  assumes "store_marker m mname now db = Inr db1"
  shows "map strip_id (marker_images db1) =
           (if truthy_list (p_imgs m)
            then filter (\<lambda>r. Some (i_marker_uid r) \<noteq> p_uid m) (map strip_id (marker_images db)) @
                 image_rows_of m
            else map strip_id (marker_images db))"
proof -
  from assms obtain dbi where
    ins: "insert_or_replace_marker (marker_values_of m mname) now db = Inr dbi"
    by (auto simp: store_marker_def split: sum.splits)
  from insert_or_replace_marker_row[OF ins] have i1: "marker_images dbi = marker_images db"
    by auto
  show ?thesis
  proof (cases "truthy_list (p_imgs m)")
    case False
    with assms ins have "db1 = dbi" by (simp add: store_marker_def)
    with i1 False show ?thesis by simp
  next
    case True
    with assms ins have
      l: "insert_images_loop (p_uid m) (or_empty (p_imgs m)) 0 (delete_marker_images (p_uid m) dbi) = Inr db1"
      by (simp add: store_marker_def)
    from True have ne: "or_empty (p_imgs m) \<noteq> []"
      by (auto simp: truthy_list_def or_empty_def split: option.splits)
    from insert_images_loop_urls[OF l] ne obtain u where u: "p_uid m = Some u"
      by auto
    from insert_images_loop_stripped[OF l[unfolded u]]
    have "map strip_id (marker_images db1) =
            map strip_id (filter (\<lambda>r. Some (i_marker_uid r) \<noteq> Some u) (marker_images db)) @
            image_rows u (or_empty (p_imgs m)) 0"
      by (simp add: delete_marker_images_def i1)
    then show ?thesis
      using True u filter_map_strip[of "\<lambda>x. Some x \<noteq> Some u" "marker_images db"]
      by (simp add: image_rows_of_def)
  qed
qed

lemma sync_loop_images:
  assumes "sync_loop ms mname now db c = Inr (db', n)"
  shows "map strip_id (marker_images db') =
           filter (\<lambda>r. Some (i_marker_uid r) \<notin> p_uid ` set (with_images (filter has_geometry ms)))
             (map strip_id (marker_images db)) @
           concat (map image_rows_of (survivors (with_images (filter has_geometry ms))))"
  using assms
proof (induction ms arbitrary: db c)
  case Nil
  then show ?case by (simp add: with_images_def)
next
  case (Cons m ms)
  show ?case
  proof (cases "has_geometry m")
    case False
    with Cons.prems have "sync_loop ms mname now db c = Inr (db', n)"
      by (simp add: has_geometry_def)
    from Cons.IH[OF this] False show ?thesis by simp
  next
    case True
    with Cons.prems obtain db1 where
      s: "store_marker m mname now db = Inr db1"
      and l: "sync_loop ms mname now db1 (c + 1) = Inr (db', n)"
      by (auto simp: has_geometry_def split: sum.splits)
    let ?W = "with_images (filter has_geometry ms)"
    let ?U = "p_uid ` set ?W"
    note ih = Cons.IH[OF l]
    show ?thesis
    proof (cases "truthy_list (p_imgs m)")
      case False
      with store_marker_images[OF s] have
        "map strip_id (marker_images db1) = map strip_id (marker_images db)" by simp
      with ih False True show ?thesis by (simp add: with_images_def)
    next
      case imgs: True
      from store_marker_images[OF s] imgs have s1:
        "map strip_id (marker_images db1) =
           filter (\<lambda>r. Some (i_marker_uid r) \<noteq> p_uid m) (map strip_id (marker_images db)) @
           image_rows_of m" by simp
      have w: "with_images (filter has_geometry (m # ms)) = m # ?W"
        using True imgs by (simp add: with_images_def)
      have f: "filter (\<lambda>r. Some (i_marker_uid r) \<notin> ?U)
                 (filter (\<lambda>r. Some (i_marker_uid r) \<noteq> p_uid m) (map strip_id (marker_images db))) =
               filter (\<lambda>r. Some (i_marker_uid r) \<notin> insert (p_uid m) ?U)
                 (map strip_id (marker_images db))"
        unfolding filter_filter by (rule filter_cong) auto
      have own: "\<forall>r\<in>set (image_rows_of m). Some (i_marker_uid r) = p_uid m"
        by (auto simp: image_rows_of_def image_rows_uid split: option.splits)
      let ?C = "concat (map image_rows_of (survivors ?W))"
      let ?S0 = "map strip_id (marker_images db)"
      have step: "map strip_id (marker_images db') =
                    filter (\<lambda>r. Some (i_marker_uid r) \<notin> insert (p_uid m) ?U) ?S0 @
                    (filter (\<lambda>r. Some (i_marker_uid r) \<notin> ?U) (image_rows_of m) @ ?C)"
        unfolding ih s1 filter_append f by simp
      have goal: "map strip_id (marker_images db') =
                    filter (\<lambda>r. Some (i_marker_uid r) \<notin> insert (p_uid m) ?U) ?S0 @
                    concat (map image_rows_of (survivors (m # ?W)))"
      proof (cases "p_uid m \<noteq> None \<and> p_uid m \<in> ?U")
        case replaced: True
        with own have e: "filter (\<lambda>r. Some (i_marker_uid r) \<notin> ?U) (image_rows_of m) = []"
          by (auto simp: filter_empty_conv)
        from replaced have sv: "survivors (m # ?W) = survivors ?W" by simp
        show ?thesis unfolding step e sv by simp
      next
        case kept: False
        have e: "filter (\<lambda>r. Some (i_marker_uid r) \<notin> ?U) (image_rows_of m) = image_rows_of m"
        proof (cases "p_uid m")
          case None
          then show ?thesis by (simp add: image_rows_of_def)
        next
          case (Some u)
          with kept own show ?thesis by (auto simp: filter_id_conv)
        qed
        from kept have sv: "survivors (m # ?W) = m # survivors ?W" by auto
        show ?thesis unfolding step e sv by simp
      qed
      have u: "p_uid ` set (m # ?W) = insert (p_uid m) ?U" by simp
      show ?thesis unfolding w u by (rule goal)
    qed
  qed
qed

text \<open>
  Claim C10.  \<open>sync_markers\<close> passes over every record whose \<open>geometry\<close> is absent or
  empty: the call behaves as if those records were not in the list, so nothing is stored
  for them.  Whenever the call returns, the count is the number of records with geometry,
  each of which was upserted, and it is at most (and can be less than) the length of the
  list.  The table \<open>markers\<close> then holds the old rows whose uid no stored record has,
  followed by one row with the values of each stored record that no later record of the
  same uid replaced; with distinct uids that is one new row per counted record.  The
  image rows are, up to their ids, the old ones of the markers that no stored record with
  images names, followed by the images of those records.  The call returns when the
  binding and the table constraints accept the records with geometry; on an empty list it
  returns 0 and leaves the database as it was.
\<close>

theorem sync_markers_stores_and_counts:
  "sync_markers [] mname now db = Inr (db, 0) \<and>
   sync_markers ms mname now db = sync_markers (filter has_geometry ms) mname now db \<and>
   (\<forall>db' n. sync_markers ms mname now db = Inr (db', n) \<longrightarrow>
        n = length (filter has_geometry ms) \<and> n \<le> length ms \<and>
        (\<exists>new. markers db' =
                  filter (\<lambda>r. m_uid r = None \<or>
                               m_uid r \<notin> p_uid ` set (filter has_geometry ms)) (markers db) @ new \<and>
                list_all2 (fresh_row mname now) (survivors (filter has_geometry ms)) new \<and>
                (distinct (map p_uid (filter has_geometry ms)) \<longrightarrow>
                   list_all2 (fresh_row mname now) (filter has_geometry ms) new \<and>
                   length new = n)) \<and>
        map strip_id (marker_images db') =
          filter (\<lambda>r. Some (i_marker_uid r) \<notin>
                         p_uid ` set (with_images (filter has_geometry ms)))
            (map strip_id (marker_images db)) @
          concat (map image_rows_of (survivors (with_images (filter has_geometry ms))))) \<and>
   ((\<forall>m\<in>set ms. has_geometry m \<longrightarrow> storable m) \<longrightarrow>
      (\<exists>db'. sync_markers ms mname now db = Inr (db', length (filter has_geometry ms))))"
proof (intro conjI allI impI)
  show "sync_markers [] mname now db = Inr (db, 0)"
    by (simp add: sync_markers_def)
  show "sync_markers ms mname now db = sync_markers (filter has_geometry ms) mname now db"
    unfolding sync_markers_def by (rule sync_loop_filter)
next
  fix db' n assume ret: "sync_markers ms mname now db = Inr (db', n)"
  then have l: "sync_loop ms mname now db 0 = Inr (db', n)"
    by (simp add: sync_markers_def)
  from sync_loop_count[OF l] show n: "n = length (filter has_geometry ms)" by simp
  then show "n \<le> length ms" by simp
  from sync_loop_markers[OF l] obtain new where
    new: "markers db' =
            filter (\<lambda>r. m_uid r = None \<or> m_uid r \<notin> p_uid ` set (filter has_geometry ms))
              (markers db) @ new"
         "list_all2 (fresh_row mname now) (survivors (filter has_geometry ms)) new"
    by blast
  have "distinct (map p_uid (filter has_geometry ms)) \<longrightarrow>
          list_all2 (fresh_row mname now) (filter has_geometry ms) new \<and> length new = n"
  proof
    assume "distinct (map p_uid (filter has_geometry ms))"
    then have "survivors (filter has_geometry ms) = filter has_geometry ms"
      by (rule survivors_distinct)
    with new(2) have a: "list_all2 (fresh_row mname now) (filter has_geometry ms) new" by simp
    then have "length new = n" using n by (simp add: list_all2_lengthD)
    with a show "list_all2 (fresh_row mname now) (filter has_geometry ms) new \<and> length new = n"
      by simp
  qed
  with new show "\<exists>new. markers db' =
                  filter (\<lambda>r. m_uid r = None \<or>
                               m_uid r \<notin> p_uid ` set (filter has_geometry ms)) (markers db) @ new \<and>
                list_all2 (fresh_row mname now) (survivors (filter has_geometry ms)) new \<and>
                (distinct (map p_uid (filter has_geometry ms)) \<longrightarrow>
                   list_all2 (fresh_row mname now) (filter has_geometry ms) new \<and>
                   length new = n)"
    by blast
  from sync_loop_images[OF l] show "map strip_id (marker_images db') =
          filter (\<lambda>r. Some (i_marker_uid r) \<notin>
                         p_uid ` set (with_images (filter has_geometry ms)))
            (map strip_id (marker_images db)) @
          concat (map image_rows_of (survivors (with_images (filter has_geometry ms))))" .
next
  assume "\<forall>m\<in>set ms. has_geometry m \<longrightarrow> storable m"
  from sync_loop_total[OF this, of mname now db 0]
  show "\<exists>db'. sync_markers ms mname now db = Inr (db', length (filter has_geometry ms))"
    by (simp add: sync_markers_def)
qed

theorem sync_markers_stores_and_counts_witness:
  "\<exists>db' row. sync_markers
       [stash_payload, stash_payload\<lparr>p_geometry := Some []\<rparr>, stash_payload\<lparr>p_geometry := None\<rparr>]
       ''woods'' 2 empty_db = Inr (db', 1) \<and>
     1 < length [stash_payload, stash_payload\<lparr>p_geometry := Some []\<rparr>,
                 stash_payload\<lparr>p_geometry := None\<rparr>] \<and>
     markers db' = [row] \<and> fresh_row ''woods'' 2 stash_payload row \<and>
     map strip_id (marker_images db') = [stash_image_row\<lparr>i_id := 0\<rparr>]"
proof -
  let ?ms = "[stash_payload, stash_payload\<lparr>p_geometry := Some []\<rparr>,
              stash_payload\<lparr>p_geometry := None\<rparr>]"
  have g: "has_geometry stash_payload" "\<not> has_geometry (stash_payload\<lparr>p_geometry := Some []\<rparr>)"
    "\<not> has_geometry (stash_payload\<lparr>p_geometry := None\<rparr>)"
    by (simp_all add: has_geometry_def or_empty_def stash_payload_def)
  have st: "storable stash_payload"
    by (simp add: storable_def or_empty_def truthy_list_def dict_get_def stash_payload_def
          stash_image_def)
  have h: "\<forall>m\<in>set ?ms. has_geometry m \<longrightarrow> storable m"
    using g st by simp
  have f: "filter has_geometry ?ms = [stash_payload]"
    using g by simp
  note t = sync_markers_stores_and_counts[of "''woods''" 2 empty_db ?ms]
  from t[THEN conjunct2, THEN conjunct2, THEN conjunct2, THEN mp, OF h]
  obtain db' where ret: "sync_markers ?ms ''woods'' 2 empty_db = Inr (db', 1)"
    unfolding f by auto
  from t[THEN conjunct2, THEN conjunct2, THEN conjunct1, rule_format, OF ret]
  obtain new where
    new: "markers db' =
            filter (\<lambda>r. m_uid r = None \<or> m_uid r \<notin> p_uid ` set [stash_payload])
              (markers empty_db) @ new"
         "list_all2 (fresh_row ''woods'' 2) (survivors [stash_payload]) new"
    and im: "map strip_id (marker_images db') =
          filter (\<lambda>r. Some (i_marker_uid r) \<notin> p_uid ` set (with_images [stash_payload]))
            (map strip_id (marker_images empty_db)) @
          concat (map image_rows_of (survivors (with_images [stash_payload])))"
    unfolding f by blast
  from new(2) obtain row where row: "new = [row]" "fresh_row ''woods'' 2 stash_payload row"
    by (auto simp: list_all2_Cons1)
  from new(1) row(1) have m: "markers db' = [row]"
    by (simp add: empty_db_def)
  from im have i: "map strip_id (marker_images db') = [stash_image_row\<lparr>i_id := 0\<rparr>]"
    by (simp add: empty_db_def with_images_def truthy_list_def image_rows_of_def or_empty_def
          stash_payload_def stash_image_def stash_image_row_def)
  from ret m row(2) i show ?thesis by simp
qed


section \<open>Properties of the payload decoder\<close>

lemma nths_none: "(\<forall>i<length xs. i \<notin> I) \<Longrightarrow> nths xs I = []"
  by (induction xs arbitrary: I) (auto simp: nths_Cons)

lemma strip_noise_nths: "nths xs (- {5..9}) = take 5 xs @ drop 10 xs"
proof -
  have a: "nths (take 5 xs) (- {5..9}) = take 5 xs"
    by (rule nths_all) simp
  have b: "nths (take 5 (drop 5 xs)) {j. j + length (take 5 xs) \<in> - {5..9}} = []"
    by (rule nths_none) auto
  have c: "nths (drop 5 (drop 5 xs))
             {j. j + length (take 5 (drop 5 xs)) \<in> {j. j + length (take 5 xs) \<in> - {5..9}}} =
           drop 5 (drop 5 xs)"
    by (rule nths_all) auto
  have "xs = take 5 xs @ (take 5 (drop 5 xs) @ drop 5 (drop 5 xs))"
    by (simp only: append_take_drop_id)
  then have "nths xs (- {5..9}) =
               nths (take 5 xs @ (take 5 (drop 5 xs) @ drop 5 (drop 5 xs))) (- {5..9})"
    by simp
  also have "\<dots> = take 5 xs @ drop 5 (drop 5 xs)"
    unfolding nths_append a b c by simp
  finally show ?thesis by simp
qed

lemma decode_cases:
  "decode b64decode utf8_decode unquote encoded =
     (case b64decode (take 5 encoded @ drop 10 encoded) of
        Inl e \<Rightarrow> None
      | Inr decoded_bytes \<Rightarrow>
          (case utf8_decode decoded_bytes of
             Inl e \<Rightarrow> None
           | Inr url_encoded \<Rightarrow>
               (case unquote url_encoded of
                  Inl e \<Rightarrow> None
                | Inr json_str \<Rightarrow> Some json_str)))"
  by (simp add: decode_def Let_def)

text \<open>
  Claim C7.  \<open>decode\<close> works on the input with the characters at index 5 to 9 removed,
  which is its first five characters followed by everything from index 10 on.  It returns
  the result of base64-decoding, UTF-8 decoding and percent-decoding that string when all
  three stages succeed, and the one failure value \<open>None\<close> exactly when a stage fails; being
  a total function into an option, it raises nothing.
\<close>

theorem decode_result_or_failure:
  "nths encoded (- {5..9}) = take 5 encoded @ drop 10 encoded \<and>
   (decode b64decode utf8_decode unquote encoded = None \<or>
    (\<exists>decoded_bytes url_encoded json_str.
        b64decode (nths encoded (- {5..9})) = Inr decoded_bytes \<and>
        utf8_decode decoded_bytes = Inr url_encoded \<and>
        unquote url_encoded = Inr json_str \<and>
        decode b64decode utf8_decode unquote encoded = Some json_str)) \<and>
   (decode b64decode utf8_decode unquote encoded = None \<longleftrightarrow>
      (\<exists>e. b64decode (nths encoded (- {5..9})) = Inl e) \<or>
      (\<exists>decoded_bytes e. b64decode (nths encoded (- {5..9})) = Inr decoded_bytes \<and>
          utf8_decode decoded_bytes = Inl e) \<or>
      (\<exists>decoded_bytes url_encoded e. b64decode (nths encoded (- {5..9})) = Inr decoded_bytes \<and>
          utf8_decode decoded_bytes = Inr url_encoded \<and> unquote url_encoded = Inl e))"
proof -
  define p where "p = take 5 encoded @ drop 10 encoded"
  have n: "nths encoded (- {5..9}) = p"
    unfolding p_def by (rule strip_noise_nths)
  have d: "decode b64decode utf8_decode unquote encoded =
     (case b64decode p of
        Inl e \<Rightarrow> None
      | Inr decoded_bytes \<Rightarrow>
          (case utf8_decode decoded_bytes of
             Inl e \<Rightarrow> None
           | Inr url_encoded \<Rightarrow>
               (case unquote url_encoded of
                  Inl e \<Rightarrow> None
                | Inr json_str \<Rightarrow> Some json_str)))"
    unfolding p_def by (rule decode_cases)
  show ?thesis
  proof (cases "b64decode p")
    case (Inl e)
    then show ?thesis unfolding n d by (simp add: p_def)
  next
    case b: (Inr bs)
    show ?thesis
    proof (cases "utf8_decode bs")
      case (Inl e)
      with b show ?thesis unfolding n d by (simp add: p_def)
    next
      case u: (Inr t)
      show ?thesis
      proof (cases "unquote t")
        case (Inl e)
        with b u show ?thesis unfolding n d by (simp add: p_def)
      next
        case (Inr j)
        with b u show ?thesis unfolding n d by (simp add: p_def)
      qed
    qed
  qed
qed

theorem decode_result_or_failure_witness:
  "decode Inr Inr Inr ''0123456789abc'' = Some ''01234abc'' \<and>
   decode (\<lambda>s. Inl ()) Inr Inr ''0123456789abc'' = (None :: string option) \<and>
   decode Inr Inr Inr '''' = Some ''''"
proof -
  have a: "decode Inr Inr Inr ''0123456789abc'' = Some ''01234abc''"
    by (simp add: decode_def)
  have c: "decode Inr Inr Inr '''' = Some ''''"
    by (simp add: decode_def)
  have "\<exists>e::unit. (\<lambda>s::string. Inl ()) (nths ''0123456789abc'' (- {5..9})) = (Inl e :: unit + string)"
    by simp
  with decode_result_or_failure[of "''0123456789abc''" "\<lambda>s. Inl ()" Inr Inr, THEN conjunct2, THEN conjunct2]
  have b: "decode (\<lambda>s. Inl ()) Inr Inr ''0123456789abc'' = (None :: string option)"
    by blast
  from a b c show ?thesis by simp
qed

end
